theory Spec2Isabelle
  imports Main "HOL-Library.Sublist"
begin

section \<open>The HLS conversion handler of \<open>index.js\<close>\<close>

text \<open>
  The theory embeds the Lambda handler of \<open>src/index.js\<close>: the filename sanitizer, the
  source-key validation, the encode loop over the resolution ladder, the synthesis of the
  master playlist, the uploads, the Pub/Sub notification and the cleanup of the
  \<open>finally\<close> block.

  JavaScript strings are modelled as \<open>string\<close> (lists of 8-bit characters; the keys,
  names and playlists the theorems compute with are ASCII). Numbers are unbounded
  integers, which is exact for the magnitudes of the ladder. The collaborators the handler
  calls (the object store, the encoder process, Pub/Sub, the process environment and
  \<open>decodeURIComponent\<close>) are fields of a record \<open>world\<close>; every answer they can give
  is a value of the model, every \<open>throw\<close> a value \<open>Inl e\<close>.
\<close>

subsection \<open>Regular expressions\<close>

text \<open>
  The fragment of JavaScript regular expressions the source uses: a regular expression is
  a list of alternatives, an alternative a list of atoms. \<open>Bol\<close> is \<open>^\<close>, \<open>Eol\<close> is
  \<open>$\<close> (no \<open>m\<close> flag: the ends of the input), \<open>Chr c\<close> a literal, \<open>Cls p\<close> a character
  class and \<open>ClsPlus p\<close> a class under the greedy \<open>+\<close>.

  \<open>atom_ends a b s\<close> lists the numbers of characters the atom can consume at a position
  where the rest of the input is \<open>s\<close> (\<open>b\<close>: the position is the start of the input), in
  the order in which a backtracking matcher tries them: the longest first for \<open>+\<close>.
\<close>

datatype atom = Bol | Eol | Chr char | Cls "char \<Rightarrow> bool" | ClsPlus "char \<Rightarrow> bool"

type_synonym regex = "atom list list"

fun atom_ends :: "atom \<Rightarrow> bool \<Rightarrow> string \<Rightarrow> nat list" where
  "atom_ends Bol b s = (if b then [0] else [])"
| "atom_ends Eol b s = (if s = [] then [0] else [])"
| "atom_ends (Chr c) b s = (case s of [] \<Rightarrow> [] | x # _ \<Rightarrow> if x = c then [1] else [])"
| "atom_ends (Cls p) b s = (case s of [] \<Rightarrow> [] | x # _ \<Rightarrow> if p x then [1] else [])"
| "atom_ends (ClsPlus p) b s = rev [1 ..< Suc (length (takeWhile p s))]"

fun seq_ends :: "atom list \<Rightarrow> bool \<Rightarrow> string \<Rightarrow> nat list" where
  "seq_ends [] b s = [0]"
| "seq_ends (a # as) b s =
     concat (map (\<lambda>n. map (\<lambda>k. n + k) (seq_ends as (b \<and> n = 0) (drop n s)))
                 (atom_ends a b s))"

text \<open>\<open>regex_exec r b s\<close>: the length of the match at this position, if there is one.\<close>

definition regex_exec :: "regex \<Rightarrow> bool \<Rightarrow> string \<Rightarrow> nat option" where
  "regex_exec r b s =
     (case concat (map (\<lambda>alt. seq_ends alt b s) r) of [] \<Rightarrow> None | n # _ \<Rightarrow> Some n)"

text \<open>\<open>RegExp.prototype.test\<close> without the \<open>g\<close> flag: a match at some position.\<close>

fun regex_search :: "regex \<Rightarrow> bool \<Rightarrow> string \<Rightarrow> bool" where
  "regex_search r b [] = (case regex_exec r b [] of None \<Rightarrow> False | Some _ \<Rightarrow> True)"
| "regex_search r b (c # cs) =
     (case regex_exec r b (c # cs) of None \<Rightarrow> regex_search r False cs | Some _ \<Rightarrow> True)"

definition regex_test :: "regex \<Rightarrow> string \<Rightarrow> bool" where
  "regex_test r s = regex_search r True s"

text \<open>
  \<open>String.prototype.replace\<close> with a \<open>g\<close> regular expression and a replacement string
  without \<open>$\<close> patterns: the input is scanned once from left to right; at a match the
  replacement is emitted and the scan goes on behind the match (one character further
  when the match is empty); elsewhere the character is copied. The matches are matches
  of the original input: nothing is matched against the text already emitted.
\<close>

fun replace_from :: "regex \<Rightarrow> string \<Rightarrow> bool \<Rightarrow> string \<Rightarrow> string" where
  "replace_from r rep b [] = (case regex_exec r b [] of None \<Rightarrow> [] | Some _ \<Rightarrow> rep)"
| "replace_from r rep b (c # cs) =
     (case regex_exec r b (c # cs) of
        None \<Rightarrow> c # replace_from r rep False cs
      | Some 0 \<Rightarrow> rep @ c # replace_from r rep False cs
      | Some (Suc n) \<Rightarrow> rep @ replace_from r rep False (drop n cs))"

definition replace_g :: "regex \<Rightarrow> string \<Rightarrow> string \<Rightarrow> string" where
  "replace_g r rep s = replace_from r rep True s"

subsection \<open>The filename sanitizer\<close>

definition char_between :: "char \<Rightarrow> char \<Rightarrow> char \<Rightarrow> bool" where
  "char_between lo hi c =
     ((of_char lo :: nat) \<le> of_char c \<and> (of_char c :: nat) \<le> of_char hi)"

text \<open>The class \<open>[A-Za-z0-9._]\<close> and its complement \<open>[^A-Za-z0-9._]\<close>.\<close>

definition allowed :: "char \<Rightarrow> bool" where
  "allowed c =
     (char_between CHR ''A'' CHR ''Z'' c \<or> char_between CHR ''a'' CHR ''z'' c \<or>
      char_between CHR ''0'' CHR ''9'' c \<or> c = CHR ''.'' \<or> c = CHR ''_'')"

definition disallowed :: "char \<Rightarrow> bool" where
  "disallowed c = (\<not> allowed c)"

definition is_hyphen :: "char \<Rightarrow> bool" where
  "is_hyphen c = (c = CHR ''-'')"

text \<open>\<open>/[^A-Za-z0-9._]+/g\<close>, \<open>/-+/g\<close> and \<open>/^-|-$|_$/g\<close>.\<close>

definition re_disallowed_run :: regex where
  "re_disallowed_run = [[ClsPlus disallowed]]"

definition re_hyphen_run :: regex where
  "re_hyphen_run = [[ClsPlus is_hyphen]]"

definition re_trim :: regex where
  "re_trim = [[Bol, Chr CHR ''-''], [Chr CHR ''-'', Eol], [Chr CHR ''_'', Eol]]"

definition sanitizeFilename :: "string \<Rightarrow> string" where
  "sanitizeFilename filename =
     replace_g re_trim ''''
       (replace_g re_hyphen_run ''-''
         (replace_g re_disallowed_run ''-'' filename))"

text \<open>
  The three replacements, described without regular expressions. \<open>squeeze p\<close> replaces
  every maximal run of characters in \<open>p\<close> by one hyphen; the last replacement removes a
  hyphen at the start and, independently, the final character when it is a hyphen or an
  underscore.
\<close>

function squeeze :: "(char \<Rightarrow> bool) \<Rightarrow> string \<Rightarrow> string" where
  "squeeze p [] = []"
| "squeeze p (c # cs) =
     (if p c then CHR ''-'' # squeeze p (dropWhile p cs) else c # squeeze p cs)"
  by pat_completeness auto
termination
  by (relation "measure (\<lambda>(p, s). length s)") (auto simp: length_dropWhile_le less_Suc_eq_le)

definition strip_leading :: "char \<Rightarrow> string \<Rightarrow> string" where
  "strip_leading c s = (case s of [] \<Rightarrow> [] | x # xs \<Rightarrow> if x = c then xs else s)"

definition strip_trailing :: "char \<Rightarrow> string \<Rightarrow> string" where
  "strip_trailing c s = (case rev s of [] \<Rightarrow> [] | x # xs \<Rightarrow> if x = c then rev xs else s)"

definition strip_last_hyphen_or_underscore :: "string \<Rightarrow> string" where
  "strip_last_hyphen_or_underscore s =
     (case rev s of [] \<Rightarrow> []
      | x # xs \<Rightarrow> if x = CHR ''-'' then rev xs else if x = CHR ''_'' then rev xs else s)"

text \<open>
  The sanitizer as the specification words it: the trims one after the other, a leading
  hyphen, then a trailing hyphen, then a trailing underscore.
\<close>

definition spec_sanitize :: "string \<Rightarrow> string" where
  "spec_sanitize base =
     strip_trailing CHR ''_''
       (strip_trailing CHR ''-''
         (strip_leading CHR ''-'' (squeeze is_hyphen (squeeze disallowed base))))"

text \<open>
  The sanitizer with the trims of one single pass: a leading hyphen, and the final
  character when it is a hyphen or an underscore.
\<close>

definition one_pass_sanitize :: "string \<Rightarrow> string" where
  "one_pass_sanitize base =
     strip_last_hyphen_or_underscore
       (strip_leading CHR ''-'' (squeeze is_hyphen (squeeze disallowed base)))"

definition ends_in_hyphen_or_underscore :: "string \<Rightarrow> bool" where
  "ends_in_hyphen_or_underscore s =
     (case rev s of [] \<Rightarrow> False | x # _ \<Rightarrow> x = CHR ''-'' \<or> x = CHR ''_'')"

subsection \<open>JavaScript values\<close>

datatype jsval = Undefined | NaN | Num int | Str string

text \<open>An object literal: its properties in order. Reading a missing property gives \<open>undefined\<close>.\<close>

type_synonym obj = "(string \<times> jsval) list"

definition get_prop :: "obj \<Rightarrow> string \<Rightarrow> jsval" where
  "get_prop ob k = (case map_of ob k of None \<Rightarrow> Undefined | Some v \<Rightarrow> v)"

function digits :: "nat \<Rightarrow> string" where
  "digits n =
     (if n < 10 then [''0123456789'' ! n]
      else digits (n div 10) @ [''0123456789'' ! (n mod 10)])"
  by pat_completeness auto
termination
  by (relation "measure (\<lambda>n. n)") auto

definition show_int :: "int \<Rightarrow> string" where
  "show_int i = (if i < 0 then CHR ''-'' # digits (nat (- i)) else digits (nat i))"

text \<open>The string a value becomes inside a template literal.\<close>

fun to_string :: "jsval \<Rightarrow> string" where
  "to_string Undefined = ''undefined''"
| "to_string NaN = ''NaN''"
| "to_string (Num i) = show_int i"
| "to_string (Str s) = s"

definition is_digit :: "char \<Rightarrow> bool" where
  "is_digit c = char_between CHR ''0'' CHR ''9'' c"

definition is_space :: "char \<Rightarrow> bool" where
  "is_space c = (c = CHR '' '' \<or> char_between (CHR 0x09) (CHR 0x0D) c)"

definition digit_value :: "char \<Rightarrow> nat" where
  "digit_value c = of_char c - 48"

text \<open>
  \<open>parseInt(v, 10)\<close> (and \<open>parseInt(v)\<close> on a string that does not start with \<open>0x\<close>):
  leading white space, a sign, then the longest run of decimal digits; \<open>NaN\<close> when
  there is no digit.
\<close>

definition parseInt :: "jsval \<Rightarrow> jsval" where
  "parseInt v =
     (let s = dropWhile is_space (to_string v);
          neg = (case s of [] \<Rightarrow> False | c # _ \<Rightarrow> c = CHR ''-'');
          r = (case s of [] \<Rightarrow> [] | c # t \<Rightarrow> if c = CHR ''-'' then t else if c = CHR ''+'' then t else s);
          ds = takeWhile is_digit r;
          n = int (foldl (\<lambda>a c. 10 * a + digit_value c) 0 ds)
      in if ds = [] then NaN else Num (if neg then - n else n))"

text \<open>The product of two numbers (the operands in the source are numbers or \<open>NaN\<close>).\<close>

fun js_times :: "jsval \<Rightarrow> jsval \<Rightarrow> jsval" where
  "js_times (Num a) (Num b) = Num (a * b)"
| "js_times _ _ = NaN"

subsection \<open>Strings and paths\<close>

text \<open>\<open>Array.prototype.join\<close> over strings and \<open>String.prototype.split\<close> at a character.\<close>

fun join_with :: "string \<Rightarrow> string list \<Rightarrow> string" where
  "join_with sep [] = []"
| "join_with sep [x] = x"
| "join_with sep (x # y # ys) = x @ sep @ join_with sep (y # ys)"

fun split_on :: "char \<Rightarrow> string \<Rightarrow> string list" where
  "split_on d [] = [[]]"
| "split_on d (c # cs) =
     (if c = d then [] # split_on d cs
      else (case split_on d cs of [] \<Rightarrow> [[c]] | x # xs \<Rightarrow> (c # x) # xs))"

text \<open>
  The POSIX functions of Node's \<open>path\<close> module, which the handler calls: \<open>join\<close> (of two
  arguments), \<open>extname\<close> and \<open>basename\<close>. They are the library's, not the repository's;
  the definitions follow the library's documented results. \<open>path_basename\<close> is given
  for a suffix that is not longer than the last segment, which is what \<open>extname\<close>
  returns.
\<close>

fun normalize_segments :: "bool \<Rightarrow> string list \<Rightarrow> string list \<Rightarrow> string list" where
  "normalize_segments up acc [] = rev acc"
| "normalize_segments up acc (seg # segs) =
     (if seg = [] then normalize_segments up acc segs
      else if seg = ''.'' then normalize_segments up acc segs
      else if seg = ''..'' then
        (case acc of
           [] \<Rightarrow> normalize_segments up (if up then [''..''] else []) segs
         | t # rest \<Rightarrow>
             if t = ''..'' then normalize_segments up (if up then ''..'' # acc else acc) segs
             else normalize_segments up rest segs)
      else normalize_segments up (seg # acc) segs)"

definition path_normalize :: "string \<Rightarrow> string" where
  "path_normalize p =
     (case p of [] \<Rightarrow> ''.''
      | c # _ \<Rightarrow>
         (let absolute = (c = CHR ''/'');
              trailing = (last p = CHR ''/'');
              r = join_with ''/'' (normalize_segments (\<not> absolute) [] (split_on CHR ''/'' p))
          in if r = [] then (if absolute then ''/'' else if trailing then ''./'' else ''.'')
             else (if absolute then ''/'' else []) @ r @ (if trailing then ''/'' else [])))"

definition path_join :: "string \<Rightarrow> string \<Rightarrow> string" where
  "path_join a b =
     (let joined = join_with ''/'' (filter (\<lambda>x. x \<noteq> []) [a, b])
      in if joined = [] then ''.'' else path_normalize joined)"

definition is_slash :: "char \<Rightarrow> bool" where
  "is_slash c = (c = CHR ''/'')"

definition not_slash :: "char \<Rightarrow> bool" where
  "not_slash c = (c \<noteq> CHR ''/'')"

definition not_dot :: "char \<Rightarrow> bool" where
  "not_dot c = (c \<noteq> CHR ''.'')"

text \<open>The last segment of a path: trailing slashes dropped, then what follows the last slash.\<close>

definition last_segment :: "string \<Rightarrow> string" where
  "last_segment p = rev (takeWhile not_slash (dropWhile is_slash (rev p)))"

definition path_extname :: "string \<Rightarrow> string" where
  "path_extname p =
     (let seg = last_segment p;
          tail = rev (takeWhile not_dot (rev seg));
          dotted = dropWhile not_dot (rev seg)
      in case dotted of
           [] \<Rightarrow> []
         | _ # stem \<Rightarrow>
             if stem = [] then []
             else if seg = ''..'' then []
             else CHR ''.'' # tail)"

definition path_basename :: "string \<Rightarrow> string \<Rightarrow> string" where
  "path_basename p ext =
     (let seg = last_segment p
      in if ext = [] then seg
         else if length p < length ext then seg
         else if ext = p then []
         else if ext = seg then seg
         else if ext = drop (length seg - length ext) seg
              then take (length seg - length ext) seg
         else seg)"

subsection \<open>The local file system, the event and the collaborators\<close>

text \<open>
  The files the handler touches under \<open>/tmp\<close>: the input file \<open>/tmp/input.mp4\<close>, the
  output directory \<open>/tmp/output/\<close> (its entries, each a name and a content;
  \<open>None\<close> when the directory does not exist) and the credential file. An invocation
  starts in whatever state the execution environment is in. Operations on these local
  files are taken to succeed.
\<close>

type_synonym bytes = string

record local_fs =
  input_file :: "bytes option"
  output_dir :: "(string \<times> bytes) list option"
  service_key_file :: "string option"

fun dir_put :: "string \<Rightarrow> bytes \<Rightarrow> (string \<times> bytes) list \<Rightarrow> (string \<times> bytes) list" where
  "dir_put k v [] = [(k, v)]"
| "dir_put k v ((k', v') # es) = (if k' = k then (k, v) # es else (k', v') # dir_put k v es)"

text \<open>
  \<open>fs.readdirSync\<close> lists the names of a directory, each once, sorted by their bytes.
\<close>

fun name_less :: "string \<Rightarrow> string \<Rightarrow> bool" where
  "name_less [] [] = False"
| "name_less [] (b # bs) = True"
| "name_less (a # as) [] = False"
| "name_less (a # as) (b # bs) =
     ((of_char a :: nat) < of_char b \<or> (a = b \<and> name_less as bs))"

fun insert_name :: "string \<Rightarrow> string list \<Rightarrow> string list" where
  "insert_name f [] = [f]"
| "insert_name f (g # gs) =
     (if f = g then g # gs
      else if name_less f g then f # g # gs
      else g # insert_name f gs)"

definition readdirSync :: "(string \<times> bytes) list \<Rightarrow> string list" where
  "readdirSync dir = foldr insert_name (map fst dir) []"

text \<open>Writing the file \<open>path\<close>, a path inside the output directory.\<close>

definition write_output_file :: "string \<Rightarrow> bytes \<Rightarrow> local_fs \<Rightarrow> local_fs" where
  "write_output_file path body fs =
     fs\<lparr>output_dir := map_option (dir_put (path_basename path []) body) (output_dir fs)\<rparr>"

record s3_record =
  bucket_name :: string
  object_key :: string

text \<open>The event: the list \<open>event.Records\<close>.\<close>

type_synonym lambda_event = "s3_record list"

text \<open>
  The encoder command, by the values the template interpolates into it (the buffer size
  is a function of the bitrate), and what one run of the encoder leaves behind: its exit
  status, the playlist it wrote to the playlist path if it got that far, and the
  segments it wrote, which it numbers from 0 in the segment-filename pattern.
\<close>

record ffmpeg_command =
  cmd_input :: string
  cmd_width :: string
  cmd_height :: string
  cmd_bitrate :: string
  cmd_segment_filename :: string
  cmd_playlist :: string

record exec_result =
  exit_ok :: bool
  playlist_body :: "bytes option"
  segment_bodies :: "bytes list"

record world =
  GCP_SERVICE_KEY :: "string option"
  PROJECT_ID :: "string option"
  PUBSUB_TOPIC :: "string option"
  CLOUDFRONT_URL :: "string option"
  decodeURIComponent :: "string \<Rightarrow> string option"
  from_base64 :: "string \<Rightarrow> string"
  s3_getObject :: "string \<Rightarrow> string \<Rightarrow> bytes option"
  ffmpeg :: "ffmpeg_command \<Rightarrow> exec_result"
  s3_upload :: "string \<Rightarrow> string \<Rightarrow> bytes \<Rightarrow> bool"
  pubsub_publish :: "string option \<Rightarrow> string option \<Rightarrow> obj \<Rightarrow> bool"

text \<open>A variable of the process environment: \<open>undefined\<close> when it is not set.\<close>

definition env_value :: "string option \<Rightarrow> jsval" where
  "env_value v = (case v of None \<Rightarrow> Undefined | Some s \<Rightarrow> Str s)"

datatype error =
    MissingServiceKey
  | TypeError
  | URIError
  | InvalidSourceKey string
  | GetObjectFailed
  | CommandFailed ffmpeg_command
  | NoSuchDirectory
  | UploadFailed string
  | PublishFailed

text \<open>What the handler does that can be observed, in the order in which it does it.\<close>

datatype action =
    Authenticate
  | ValidateKey string
  | GetObject string string
  | Exec ffmpeg_command
  | WriteMaster string
  | Upload string string
  | Publish obj
  | Cleanup

record outcome =
  result :: "error + obj"
  fs_after :: local_fs
  trace :: "action list"

subsection \<open>The handler\<close>

definition TEMP_INPUT_FILE :: string where
  "TEMP_INPUT_FILE = ''/tmp/input.mp4''"

definition TEMP_OUTPUT_DIR :: string where
  "TEMP_OUTPUT_DIR = ''/tmp/output/''"

definition resolutions :: "obj list" where
  "resolutions =
     [[(''name'', Str ''1080p''), (''width'', Num 1920), (''height'', Num 1080), (''bitrate'', Str ''5000k'')],
      [(''name'', Str ''720p''), (''width'', Num 1280), (''height'', Num 720), (''bitrate'', Str ''3000k'')],
      [(''name'', Str ''480p''), (''width'', Num 854), (''height'', Num 480), (''bitrate'', Str ''1500k'')]]"

text \<open>\<open>/^source\/[^/]+\/[^/]+\.[^/]+$/\<close>\<close>

definition sourceKeyPattern :: regex where
  "sourceKeyPattern =
     [[Bol, Chr CHR ''s'', Chr CHR ''o'', Chr CHR ''u'', Chr CHR ''r'', Chr CHR ''c'', Chr CHR ''e'',
       Chr CHR ''/'', ClsPlus not_slash, Chr CHR ''/'', ClsPlus not_slash, Chr CHR ''.'',
       ClsPlus not_slash, Eol]]"

text \<open>\<open>record.s3.object.key.replace(/\+/g, " ")\<close>, then \<open>decodeURIComponent\<close>.\<close>

definition plus_to_space :: "string \<Rightarrow> string" where
  "plus_to_space k = replace_g [[Chr CHR ''+'']] '' '' k"

definition decode_key :: "world \<Rightarrow> string \<Rightarrow> string option" where
  "decode_key w k = decodeURIComponent w (plus_to_space k)"

text \<open>\<open>keyParts[1]\<close> of \<open>sourceKey.split("/")\<close>, as the template literals print it.\<close>

definition uniqueKey_of :: "string \<Rightarrow> string" where
  "uniqueKey_of sourceKey =
     (let keyParts = split_on CHR ''/'' sourceKey
      in if 1 < length keyParts then keyParts ! 1 else to_string Undefined)"

definition rawFilename_of :: "string \<Rightarrow> string" where
  "rawFilename_of sourceKey = path_basename sourceKey (path_extname sourceKey)"

definition baseFilename_of :: "string \<Rightarrow> string" where
  "baseFilename_of sourceKey = sanitizeFilename (rawFilename_of sourceKey)"

definition targetPrefix_of :: "string \<Rightarrow> string" where
  "targetPrefix_of sourceKey =
     ''hls/'' @ uniqueKey_of sourceKey @ ''/'' @ baseFilename_of sourceKey @ ''/''"

text \<open>The command of one resolution, and the object pushed on \<open>playlists\<close> for it.\<close>

definition playlist_path :: "obj \<Rightarrow> string" where
  "playlist_path res = path_join TEMP_OUTPUT_DIR (to_string (get_prop res ''name'') @ ''.m3u8'')"

definition playlist_entry :: "obj \<Rightarrow> obj" where
  "playlist_entry res =
     [(''name'', get_prop res ''name''), (''bitrate'', get_prop res ''bitrate''),
      (''playlist'', Str (playlist_path res))]"

definition command_of :: "obj \<Rightarrow> ffmpeg_command" where
  "command_of res =
     \<lparr>cmd_input = TEMP_INPUT_FILE,
      cmd_width = to_string (get_prop res ''width''),
      cmd_height = to_string (get_prop res ''height''),
      cmd_bitrate = to_string (get_prop res ''bitrate''),
      cmd_segment_filename =
        path_join TEMP_OUTPUT_DIR (to_string (get_prop res ''name'') @ ''_%03d.ts''),
      cmd_playlist = playlist_path res\<rparr>"

text \<open>The files of one run of the encoder: \<open>%03d\<close> is the segment's number on three digits.\<close>

definition pad3 :: "nat \<Rightarrow> string" where
  "pad3 i = replicate (3 - length (digits i)) CHR ''0'' @ digits i"

fun subst_03d :: "string \<Rightarrow> string \<Rightarrow> string" where
  "subst_03d num [] = []"
| "subst_03d num (c # cs) =
     (if take 4 (c # cs) = ''%03d'' then num @ drop 3 cs else c # subst_03d num cs)"

fun write_segments :: "string \<Rightarrow> nat \<Rightarrow> bytes list \<Rightarrow> local_fs \<Rightarrow> local_fs" where
  "write_segments pattern i [] fs = fs"
| "write_segments pattern i (b # bs) fs =
     write_segments pattern (Suc i) bs (write_output_file (subst_03d (pad3 i) pattern) b fs)"

definition write_outputs :: "ffmpeg_command \<Rightarrow> exec_result \<Rightarrow> local_fs \<Rightarrow> local_fs" where
  "write_outputs command r fs =
     (let fs1 = write_segments (cmd_segment_filename command) 0 (segment_bodies r) fs
      in case playlist_body r of None \<Rightarrow> fs1
         | Some b \<Rightarrow> write_output_file (cmd_playlist command) b fs1)"

text \<open>
  The loop over the resolutions. The entry is pushed on \<open>playlists\<close> before the encoder
  runs; a failed run rethrows the error of \<open>exec\<close>, which carries the command, and the
  loop ends there.
\<close>

record ladder =
  ladder_error :: "error option"
  playlists :: "obj list"
  ladder_fs :: local_fs
  ladder_trace :: "action list"

fun encode_loop :: "world \<Rightarrow> obj list \<Rightarrow> local_fs \<Rightarrow> ladder" where
  "encode_loop w [] fs =
     \<lparr>ladder_error = None, playlists = [], ladder_fs = fs, ladder_trace = []\<rparr>"
| "encode_loop w (res # rest) fs =
     (let command = command_of res;
          r = ffmpeg w command;
          fs1 = write_outputs command r fs
      in if exit_ok r then
           (let l = encode_loop w rest fs1
            in l\<lparr>playlists := playlist_entry res # playlists l,
                 ladder_trace := Exec command # ladder_trace l\<rparr>)
         else \<lparr>ladder_error = Some (CommandFailed command), playlists = [playlist_entry res],
               ladder_fs = fs1, ladder_trace = [Exec command]\<rparr>)"

text \<open>The master playlist: one entry per object of \<open>playlists\<close>, joined by newlines.\<close>

definition newline :: string where
  "newline = [CHR 0x0A]"

definition stream_inf :: "obj \<Rightarrow> string" where
  "stream_inf res =
     ''#EXT-X-STREAM-INF:BANDWIDTH='' @
     to_string (js_times (parseInt (get_prop res ''bitrate'')) (Num 1000)) @
     '',RESOLUTION='' @ to_string (get_prop res ''width'') @ ''x'' @
     to_string (get_prop res ''height'')"

definition master_entry :: "obj \<Rightarrow> string" where
  "master_entry res =
     stream_inf res @ newline @ path_basename (to_string (get_prop res ''playlist'')) []"

definition masterPlaylist :: "obj list \<Rightarrow> string" where
  "masterPlaylist ps = join_with newline (map master_entry ps)"

definition master_file :: "obj list \<Rightarrow> string" where
  "master_file ps = ''#EXTM3U'' @ newline @ ''#EXT-X-VERSION:3'' @ newline @ masterPlaylist ps"

text \<open>The uploads, in the order of \<open>readdirSync\<close>; the first failure ends them.\<close>

fun upload_loop ::
  "world \<Rightarrow> string \<Rightarrow> string \<Rightarrow> (string \<times> bytes) list \<Rightarrow> string list \<Rightarrow> error option \<times> action list"
where
  "upload_loop w targetBucket targetPrefix dir [] = (None, [])"
| "upload_loop w targetBucket targetPrefix dir (file # files) =
     (let s3Key = path_join targetPrefix file;
          body = (case map_of dir file of None \<Rightarrow> [] | Some b \<Rightarrow> b)
      in if s3_upload w targetBucket s3Key body then
           (case upload_loop w targetBucket targetPrefix dir files of
              (e, tr) \<Rightarrow> (e, Upload targetBucket s3Key # tr))
         else (Some (UploadFailed s3Key), [Upload targetBucket s3Key]))"

definition response_of :: "world \<Rightarrow> string \<Rightarrow> obj" where
  "response_of w sourceKey =
     [(''statusCode'', Num 200),
      (''message'', Str ''MP4 successfully converted to HLS and uploaded''),
      (''uniqueKey'', Str (uniqueKey_of sourceKey)),
      (''masterPlaylist'',
        Str (to_string (env_value (CLOUDFRONT_URL w)) @ ''/'' @ uniqueKey_of sourceKey @ ''/'' @
             baseFilename_of sourceKey @ ''/master.m3u8''))]"

text \<open>Lines 97 to 100: the output directory is created unless it exists.\<close>

definition ensure_output_dir :: "local_fs \<Rightarrow> local_fs" where
  "ensure_output_dir fs =
     (case output_dir fs of None \<Rightarrow> fs\<lparr>output_dir := Some []\<rparr> | Some _ \<Rightarrow> fs)"

text \<open>The body of the \<open>try\<close> block (lines 91 to 183).\<close>

definition try_block :: "world \<Rightarrow> string \<Rightarrow> string \<Rightarrow> local_fs \<Rightarrow> outcome" where
  "try_block w sourceBucket sourceKey fs =
     (case s3_getObject w sourceBucket sourceKey of
        None \<Rightarrow>
          \<lparr>result = Inl GetObjectFailed, fs_after = fs,
           trace = [GetObject sourceBucket sourceKey]\<rparr>
      | Some body \<Rightarrow>
          (let fs1 = fs\<lparr>input_file := Some body\<rparr>;
               fs2 = ensure_output_dir fs1;
               l = encode_loop w resolutions fs2;
               tr1 = GetObject sourceBucket sourceKey # ladder_trace l
           in case ladder_error l of
                Some e \<Rightarrow> \<lparr>result = Inl e, fs_after = ladder_fs l, trace = tr1\<rparr>
              | None \<Rightarrow>
                  (let master = master_file (playlists l);
                       fs3 = write_output_file (path_join TEMP_OUTPUT_DIR ''master.m3u8'') master
                               (ladder_fs l);
                       tr2 = tr1 @ [WriteMaster master]
                   in case output_dir fs3 of
                        None \<Rightarrow> \<lparr>result = Inl NoSuchDirectory, fs_after = fs3, trace = tr2\<rparr>
                      | Some dir \<Rightarrow>
                          (case upload_loop w sourceBucket (targetPrefix_of sourceKey) dir (readdirSync dir) of
                             (Some e, tr3) \<Rightarrow>
                               \<lparr>result = Inl e, fs_after = fs3, trace = tr2 @ tr3\<rparr>
                           | (None, tr3) \<Rightarrow>
                               (let response = response_of w sourceKey;
                                    tr4 = tr2 @ tr3 @ [Publish response]
                                in if pubsub_publish w (PROJECT_ID w) (PUBSUB_TOPIC w) response
                                   then \<lparr>result = Inr response, fs_after = fs3, trace = tr4\<rparr>
                                   else \<lparr>result = Inl PublishFailed, fs_after = fs3, trace = tr4\<rparr>)))))"

text \<open>The \<open>finally\<close> block (lines 187 to 195).\<close>

definition cleanup :: "local_fs \<Rightarrow> local_fs" where
  "cleanup fs =
     (let fs1 = (case input_file fs of None \<Rightarrow> fs | Some _ \<Rightarrow> fs\<lparr>input_file := None\<rparr>)
      in case output_dir fs1 of None \<Rightarrow> fs1 | Some _ \<Rightarrow> fs1\<lparr>output_dir := None\<rparr>)"

definition try_finally :: "world \<Rightarrow> string \<Rightarrow> string \<Rightarrow> local_fs \<Rightarrow> outcome" where
  "try_finally w sourceBucket sourceKey fs =
     (let out = try_block w sourceBucket sourceKey fs
      in out\<lparr>fs_after := cleanup (fs_after out), trace := trace out @ [Cleanup]\<rparr>)"

text \<open>
  The handler (lines 62 to 196): \<open>authenticateGCP\<close>, the first record of the event, the
  decoding and the validation of the key, all before the \<open>try\<close> statement, then the
  \<open>try\<close> statement. The target bucket is the constant \<open>targetBucket = sourceBucket\<close>.
\<close>

definition handler :: "world \<Rightarrow> lambda_event \<Rightarrow> local_fs \<Rightarrow> outcome" where
  "handler w event fs =
     (case GCP_SERVICE_KEY w of
        None \<Rightarrow> \<lparr>result = Inl MissingServiceKey, fs_after = fs, trace = [Authenticate]\<rparr>
      | Some k \<Rightarrow>
          if k = [] then \<lparr>result = Inl MissingServiceKey, fs_after = fs, trace = [Authenticate]\<rparr>
          else
            (let fs0 = fs\<lparr>service_key_file := Some (from_base64 w k)\<rparr>
             in case event of
                  [] \<Rightarrow> \<lparr>result = Inl TypeError, fs_after = fs0, trace = [Authenticate]\<rparr>
                | record # _ \<Rightarrow>
                    (case decode_key w (object_key record) of
                       None \<Rightarrow> \<lparr>result = Inl URIError, fs_after = fs0, trace = [Authenticate]\<rparr>
                     | Some sourceKey \<Rightarrow>
                         if regex_test sourceKeyPattern sourceKey then
                           (let out = try_finally w (bucket_name record) sourceKey fs0
                            in out\<lparr>trace := Authenticate # ValidateKey sourceKey # trace out\<rparr>)
                         else
                           \<lparr>result = Inl (InvalidSourceKey sourceKey), fs_after = fs0,
                            trace = [Authenticate, ValidateKey sourceKey]\<rparr>)))"

subsection \<open>Notions the proofs use\<close>

text \<open>
  A string is \<open>clean\<close> when each of its characters is of the class \<open>[A-Za-z0-9._]\<close> or a
  hyphen and no two hyphens are adjacent: the form of every string after the first two
  replacements of the sanitizer.
\<close>

fun no_double_hyphen :: "string \<Rightarrow> bool" where
  "no_double_hyphen (c # d # cs) = (\<not> (c = CHR ''-'' \<and> d = CHR ''-'') \<and> no_double_hyphen (d # cs))"
| "no_double_hyphen _ = True"

definition clean :: "string \<Rightarrow> bool" where
  "clean s = (list_all (\<lambda>c. allowed c \<or> c = CHR ''-'') s \<and> no_double_hyphen s)"

definition starts_with_hyphen :: "string \<Rightarrow> bool" where
  "starts_with_hyphen s = (case s of [] \<Rightarrow> False | c # _ \<Rightarrow> c = CHR ''-'')"

text \<open>An alternative accepts at a position when it has a match there.\<close>

definition accepts :: "atom list \<Rightarrow> bool \<Rightarrow> string \<Rightarrow> bool" where
  "accepts as b s = (case seq_ends as b s of [] \<Rightarrow> False | _ # _ \<Rightarrow> True)"

text \<open>
  The form \<open>source/<segment>/<segment>.<ext>\<close> of a key: after the prefix \<open>source/\<close> an
  owner segment and a file name, both without a slash, the file name a non-empty name, a
  dot and a non-empty extension.
\<close>

definition well_formed_key :: "string \<Rightarrow> bool" where
  "well_formed_key k =
     (\<exists>owner name ext.
        k = ''source/'' @ owner @ ''/'' @ name @ ''.'' @ ext \<and>
        owner \<noteq> [] \<and> name \<noteq> [] \<and> ext \<noteq> [] \<and>
        CHR ''/'' \<notin> set owner \<and> CHR ''/'' \<notin> set name \<and> CHR ''/'' \<notin> set ext)"

text \<open>
  The condition on a key in weaker words: after the prefix \<open>source/\<close> exactly two
  segments, both non-empty and without a slash, the second of which, the file name,
  contains a dot.
\<close>

definition stated_key_form :: "string \<Rightarrow> bool" where
  "stated_key_form k =
     (case split_on CHR ''/'' k of
        [p, owner, file] \<Rightarrow>
          p = ''source'' \<and> owner \<noteq> [] \<and> file \<noteq> [] \<and> CHR ''.'' \<in> set file
      | _ \<Rightarrow> False)"

text \<open>
  The handler reaches its \<open>try\<close> statement when the credential variable is set and not
  empty, the event has a record, its key can be decoded and the decoded key matches the
  pattern.
\<close>

definition reaches_try :: "world \<Rightarrow> lambda_event \<Rightarrow> bool" where
  "reaches_try w event =
     (case GCP_SERVICE_KEY w of
        None \<Rightarrow> False
      | Some k \<Rightarrow>
          if k = [] then False
          else (case event of
                  [] \<Rightarrow> False
                | record # _ \<Rightarrow>
                    (case decode_key w (object_key record) of
                       None \<Rightarrow> False
                     | Some sourceKey \<Rightarrow> regex_test sourceKeyPattern sourceKey)))"

text \<open>The stages of the handler, and the stage an action belongs to.\<close>

datatype stage =
  Credentials | Validate | Fetch | EncodeLadder | SynthesizeMaster | UploadAll | Notify | CleanupStage

fun stage_of :: "action \<Rightarrow> stage" where
  "stage_of Authenticate = Credentials"
| "stage_of (ValidateKey _) = Validate"
| "stage_of (GetObject _ _) = Fetch"
| "stage_of (Exec _) = EncodeLadder"
| "stage_of (WriteMaster _) = SynthesizeMaster"
| "stage_of (Upload _ _) = UploadAll"
| "stage_of (Publish _) = Notify"
| "stage_of Cleanup = CleanupStage"

fun stage_rank :: "stage \<Rightarrow> nat" where
  "stage_rank Credentials = 0"
| "stage_rank Validate = 1"
| "stage_rank Fetch = 2"
| "stage_rank EncodeLadder = 3"
| "stage_rank SynthesizeMaster = 4"
| "stage_rank UploadAll = 5"
| "stage_rank Notify = 6"
| "stage_rank CleanupStage = 7"

definition stages :: "action list \<Rightarrow> stage list" where
  "stages tr = remdups_adj (map stage_of tr)"

text \<open>
  The sequences of stages a run can go through: the stages in their order up to the one
  that fails, and the cleanup at the end once the \<open>try\<close> statement was entered.
\<close>

definition stage_sequences :: "stage list list" where
  "stage_sequences =
     [[Credentials],
      [Credentials, Validate],
      [Credentials, Validate, Fetch, CleanupStage],
      [Credentials, Validate, Fetch, EncodeLadder, CleanupStage],
      [Credentials, Validate, Fetch, EncodeLadder, SynthesizeMaster, UploadAll, CleanupStage],
      [Credentials, Validate, Fetch, EncodeLadder, SynthesizeMaster, UploadAll, Notify,
       CleanupStage]]"

fun fetches :: "action list \<Rightarrow> (string \<times> string) list" where
  "fetches [] = []"
| "fetches (GetObject b k # tr) = (b, k) # fetches tr"
| "fetches (_ # tr) = fetches tr"

fun uploads :: "action list \<Rightarrow> (string \<times> string) list" where
  "uploads [] = []"
| "uploads (Upload b k # tr) = (b, k) # uploads tr"
| "uploads (_ # tr) = uploads tr"

fun masters_written :: "action list \<Rightarrow> string list" where
  "masters_written [] = []"
| "masters_written (WriteMaster m # tr) = m # masters_written tr"
| "masters_written (_ # tr) = masters_written tr"

fun encoder_runs :: "action list \<Rightarrow> ffmpeg_command list" where
  "encoder_runs [] = []"
| "encoder_runs (Exec c # tr) = c # encoder_runs tr"
| "encoder_runs (_ # tr) = encoder_runs tr"

text \<open>The names of the files in the output directory, as \<open>readdirSync\<close> lists them.\<close>

definition output_names :: "local_fs \<Rightarrow> string list" where
  "output_names fs = (case output_dir fs of None \<Rightarrow> [] | Some dir \<Rightarrow> readdirSync dir)"

text \<open>
  The file system of the \<open>try\<close> block after the download and the creation of the output
  directory, and after a ladder that succeeded and the writing of the master playlist.
\<close>

definition fetched_fs :: "bytes \<Rightarrow> local_fs \<Rightarrow> local_fs" where
  "fetched_fs body fs = ensure_output_dir (fs\<lparr>input_file := Some body\<rparr>)"

definition master_fs :: "world \<Rightarrow> bytes \<Rightarrow> local_fs \<Rightarrow> local_fs" where
  "master_fs w body fs =
     write_output_file (path_join TEMP_OUTPUT_DIR ''master.m3u8'')
       (master_file (map playlist_entry resolutions))
       (ladder_fs (encode_loop w resolutions (fetched_fs body fs)))"

subsection \<open>Concrete worlds\<close>

text \<open>
  A world in which every collaborator succeeds and the encoder writes two segments and a
  playlist per resolution, and variants of it in which one collaborator fails; an event
  for the key \<open>source/u1/My+Video+(1).mp4\<close> and one for a key with a directory too few;
  a file system left empty and one on which an earlier invocation, cut off by the
  platform, left its files.
\<close>

definition good_world :: world where
  "good_world =
     \<lparr>GCP_SERVICE_KEY = Some ''a2V5'', PROJECT_ID = Some ''project'',
      PUBSUB_TOPIC = Some ''topic'', CLOUDFRONT_URL = Some ''https://cdn.example.com'',
      decodeURIComponent = Some, from_base64 = (\<lambda>_. ''key''),
      s3_getObject = (\<lambda>b k. Some ''video''),
      ffmpeg = (\<lambda>c. \<lparr>exit_ok = True, playlist_body = Some ''#EXTM3U'',
                        segment_bodies = [''s0'', ''s1'']\<rparr>),
      s3_upload = (\<lambda>b k body. True),
      pubsub_publish = (\<lambda>p t m. True)\<rparr>"

definition no_credential_world :: world where
  "no_credential_world = good_world\<lparr>GCP_SERVICE_KEY := None\<rparr>"

definition fetch_fails_world :: world where
  "fetch_fails_world = good_world\<lparr>s3_getObject := (\<lambda>b k. None)\<rparr>"

definition second_encode_fails_world :: world where
  "second_encode_fails_world =
     good_world\<lparr>ffmpeg := (\<lambda>c.
       if cmd_playlist c = ''/tmp/output/720p.m3u8''
       then \<lparr>exit_ok = False, playlist_body = None, segment_bodies = [''s0'']\<rparr>
       else \<lparr>exit_ok = True, playlist_body = Some ''#EXTM3U'', segment_bodies = [''s0'', ''s1'']\<rparr>)\<rparr>"

definition upload_fails_world :: world where
  "upload_fails_world =
     good_world\<lparr>s3_upload := (\<lambda>b k body. k \<noteq> ''hls/u1/My-Video-1/1080p.m3u8'')\<rparr>"

definition publish_fails_world :: world where
  "publish_fails_world = good_world\<lparr>pubsub_publish := (\<lambda>p t m. False)\<rparr>"

definition good_event :: lambda_event where
  "good_event = [\<lparr>bucket_name = ''media'', object_key = ''source/u1/My+Video+(1).mp4''\<rparr>]"

definition malformed_event :: lambda_event where
  "malformed_event = [\<lparr>bucket_name = ''media'', object_key = ''source/video.mp4''\<rparr>]"

definition empty_fs :: local_fs where
  "empty_fs = \<lparr>input_file = None, output_dir = None, service_key_file = None\<rparr>"

definition stale_fs :: local_fs where
  "stale_fs =
     \<lparr>input_file = Some ''earlier video'', output_dir = Some [(''1080p_000.ts'', ''earlier segment'')],
      service_key_file = Some ''key''\<rparr>"

section \<open>The sanitizer\<close>

subsection \<open>The replacements without regular expressions\<close>

lemma concat_singletons: "concat (map (\<lambda>n. [n]) xs) = xs"
  by (induction xs) auto

lemma exec_run:
  "regex_exec [[ClsPlus p]] b s =
     (if takeWhile p s = [] then None else Some (length (takeWhile p s)))"
  by (cases "takeWhile p s") (simp_all add: regex_exec_def concat_singletons)

lemma replace_run_Nil: "replace_from [[ClsPlus p]] rep b [] = []"
  by (simp add: exec_run)

lemma replace_run_Cons:
  "replace_from [[ClsPlus p]] rep b (c # cs) =
     (if p c then rep @ replace_from [[ClsPlus p]] rep False (dropWhile p cs)
      else c # replace_from [[ClsPlus p]] rep False cs)"
  by (simp add: exec_run dropWhile_eq_drop)

lemma replace_run_squeeze: "replace_from [[ClsPlus p]] ''-'' b s = squeeze p s"
  by (induction p s arbitrary: b rule: squeeze.induct)
    (simp_all del: replace_from.simps add: replace_run_Nil replace_run_Cons)

lemma exec_trim:
  "regex_exec re_trim b s =
     (if (b \<and> (\<exists>t. s = CHR ''-'' # t)) \<or> s = ''-'' \<or> s = ''_'' then Some 1 else None)"
  by (cases s) (auto simp: regex_exec_def re_trim_def split: list.splits)

lemma replace_trim_False:
  "replace_from re_trim '''' False s = strip_last_hyphen_or_underscore s"
proof (induction s)
  case Nil
  then show ?case by (simp add: exec_trim strip_last_hyphen_or_underscore_def)
next
  case (Cons c cs)
  then show ?case
    by (cases cs rule: rev_cases)
      (auto simp: exec_trim strip_last_hyphen_or_underscore_def split: list.splits)
qed

lemma replace_trim:
  "replace_g re_trim '''' s = strip_last_hyphen_or_underscore (strip_leading CHR ''-'' s)"
proof (cases s)
  case Nil
  then show ?thesis
    by (simp add: replace_g_def exec_trim strip_leading_def strip_last_hyphen_or_underscore_def)
next
  case (Cons c cs)
  show ?thesis
  proof (cases "c = CHR ''-''")
    case True
    with Cons show ?thesis
      by (simp add: replace_g_def exec_trim strip_leading_def replace_trim_False)
  next
    case False
    have "regex_exec re_trim True (c # cs) = regex_exec re_trim False (c # cs)"
      using False by (simp add: exec_trim)
    then have "replace_from re_trim '''' True (c # cs) = replace_from re_trim '''' False (c # cs)"
      by simp
    then have "replace_g re_trim '''' s = replace_from re_trim '''' False (c # cs)"
      unfolding replace_g_def Cons .
    also have "\<dots> = strip_last_hyphen_or_underscore (c # cs)"
      by (rule replace_trim_False)
    also have "c # cs = strip_leading CHR ''-'' s"
      using False Cons by (simp add: strip_leading_def)
    finally show ?thesis .
  qed
qed

lemma sanitize_one_pass: "sanitizeFilename x = one_pass_sanitize x"
  unfolding sanitizeFilename_def replace_trim one_pass_sanitize_def
  by (simp add: replace_g_def re_hyphen_run_def re_disallowed_run_def replace_run_squeeze)

lemma strip_last_butlast:
  "strip_last_hyphen_or_underscore s = (if ends_in_hyphen_or_underscore s then butlast s else s)"
  by (cases s rule: rev_cases)
    (auto simp: strip_last_hyphen_or_underscore_def ends_in_hyphen_or_underscore_def)

lemma squeeze_disallowed_chars:
  "list_all (\<lambda>c. allowed c \<or> c = CHR ''-'') (squeeze disallowed s)"
  by (induction disallowed s rule: squeeze.induct) (auto simp: disallowed_def)

lemma set_squeeze: "set (squeeze p s) \<subseteq> insert CHR ''-'' (set s)"
proof (induction p s rule: squeeze.induct)
  case (1 p)
  then show ?case by simp
next
  case (2 p c cs)
  have "set (dropWhile p cs) \<subseteq> set cs"
    by (auto dest: set_dropWhileD)
  with 2 show ?case by auto
qed

lemma squeeze_hyphen_chars:
  assumes "list_all (\<lambda>c. allowed c \<or> c = CHR ''-'') s"
  shows "list_all (\<lambda>c. allowed c \<or> c = CHR ''-'') (squeeze is_hyphen s)"
  using assms set_squeeze [of is_hyphen s] by (auto simp: list_all_iff)

lemma squeeze_head:
  "\<not> p c \<Longrightarrow> squeeze p (c # cs) = c # squeeze p cs"
  by simp

lemma no_double_hyphen_Cons:
  "no_double_hyphen (c # s) =
     ((case s of [] \<Rightarrow> True | d # _ \<Rightarrow> \<not> (c = CHR ''-'' \<and> d = CHR ''-'')) \<and> no_double_hyphen s)"
  by (cases s) auto

lemma squeeze_no_double_hyphen: "no_double_hyphen (squeeze is_hyphen s)"
proof (induction is_hyphen s rule: squeeze.induct)
  case 1
  then show ?case by simp
next
  case (2 c cs)
  show ?case
  proof (cases "is_hyphen c")
    case True
    have nd: "no_double_hyphen (squeeze is_hyphen (dropWhile is_hyphen cs))"
      using 2 True by simp
    have "case squeeze is_hyphen (dropWhile is_hyphen cs) of [] \<Rightarrow> True | d # _ \<Rightarrow> d \<noteq> CHR ''-''"
    proof (cases "dropWhile is_hyphen cs")
      case Nil
      then have "squeeze is_hyphen (dropWhile is_hyphen cs) = []"
        by (simp only: squeeze.simps)
      then show ?thesis by (simp only: list.case)
    next
      case (Cons y ys)
      then have "\<not> is_hyphen y"
        using hd_dropWhile [of is_hyphen cs] by auto
      with Cons show ?thesis by (simp add: is_hyphen_def)
    qed
    with nd True show ?thesis
      by (simp add: no_double_hyphen_Cons split: list.splits)
  next
    case False
    with 2 show ?thesis
      by (simp add: no_double_hyphen_Cons is_hyphen_def split: list.splits)
  qed
qed

lemma clean_squeezed: "clean (squeeze is_hyphen (squeeze disallowed x))"
  unfolding clean_def
  by (simp add: squeeze_hyphen_chars squeeze_disallowed_chars squeeze_no_double_hyphen)

lemma disallowed_hyphen: "disallowed CHR ''-''"
  by (simp add: disallowed_def allowed_def char_between_def)

lemma squeeze_disallowed_clean: "clean s \<Longrightarrow> squeeze disallowed s = s"
proof (induction disallowed s rule: squeeze.induct)
  case 1
  then show ?case by simp
next
  case (2 c cs)
  have cs: "clean cs"
    using 2(3) by (auto simp: clean_def no_double_hyphen_Cons)
  show ?case
  proof (cases "disallowed c")
    case True
    then have c: "c = CHR ''-''"
      using 2(3) by (auto simp: clean_def disallowed_def)
    have "dropWhile disallowed cs = cs"
    proof (cases cs)
      case Nil
      then show ?thesis by simp
    next
      case (Cons d ds)
      then have "d \<noteq> CHR ''-''" "allowed d \<or> d = CHR ''-''"
        using 2(3) c by (auto simp: clean_def)
      with Cons show ?thesis by (simp add: disallowed_def)
    qed
    with 2(1) True cs c show ?thesis by simp
  next
    case False
    with 2(2) cs show ?thesis by simp
  qed
qed

lemma squeeze_hyphen_clean: "clean s \<Longrightarrow> squeeze is_hyphen s = s"
proof (induction is_hyphen s rule: squeeze.induct)
  case 1
  then show ?case by simp
next
  case (2 c cs)
  have cs: "clean cs"
    using 2(3) by (auto simp: clean_def no_double_hyphen_Cons)
  show ?case
  proof (cases "is_hyphen c")
    case True
    have "dropWhile is_hyphen cs = cs"
    proof (cases cs)
      case Nil
      then show ?thesis by simp
    next
      case (Cons d ds)
      then have "d \<noteq> CHR ''-''"
        using 2(3) True by (auto simp: clean_def is_hyphen_def)
      with Cons show ?thesis by (simp add: is_hyphen_def)
    qed
    with 2(1) True cs show ?thesis by (simp add: is_hyphen_def)
  next
    case False
    with 2(2) cs show ?thesis by simp
  qed
qed

lemma no_double_hyphen_butlast: "no_double_hyphen s \<Longrightarrow> no_double_hyphen (butlast s)"
  by (induction s rule: no_double_hyphen.induct) (auto simp: no_double_hyphen_Cons split: list.splits)

lemma clean_butlast: "clean s \<Longrightarrow> clean (butlast s)"
  by (auto simp: clean_def no_double_hyphen_butlast list_all_iff dest: in_set_butlastD)

lemma clean_tl: "clean (c # s) \<Longrightarrow> clean s"
  by (auto simp: clean_def no_double_hyphen_Cons)

lemma clean_strip_last: "clean s \<Longrightarrow> clean (strip_last_hyphen_or_underscore s)"
  by (simp add: strip_last_butlast clean_butlast)

lemma clean_strip_leading: "clean s \<Longrightarrow> clean (strip_leading c s)"
  by (cases s) (auto simp: strip_leading_def dest: clean_tl)

lemma strip_leading_no_hyphen:
  "clean s \<Longrightarrow> \<not> starts_with_hyphen (strip_leading CHR ''-'' s)"
  by (cases s; cases "tl s")
    (auto simp: strip_leading_def starts_with_hyphen_def clean_def)

lemma strip_last_no_hyphen:
  "\<not> starts_with_hyphen s \<Longrightarrow> \<not> starts_with_hyphen (strip_last_hyphen_or_underscore s)"
  by (cases s; cases "tl s")
    (auto simp: strip_last_butlast starts_with_hyphen_def)

lemma strip_leading_id: "\<not> starts_with_hyphen s \<Longrightarrow> strip_leading CHR ''-'' s = s"
  by (cases s) (auto simp: strip_leading_def starts_with_hyphen_def)

lemma one_pass_clean: "clean (one_pass_sanitize x)"
  unfolding one_pass_sanitize_def
  by (intro clean_strip_last clean_strip_leading clean_squeezed)

lemma one_pass_no_hyphen: "\<not> starts_with_hyphen (one_pass_sanitize x)"
  unfolding one_pass_sanitize_def
  by (intro strip_last_no_hyphen strip_leading_no_hyphen clean_squeezed)

lemma one_pass_twice:
  "one_pass_sanitize (one_pass_sanitize x) =
     strip_last_hyphen_or_underscore (one_pass_sanitize x)"
proof -
  let ?y = "one_pass_sanitize x"
  have "one_pass_sanitize ?y =
      strip_last_hyphen_or_underscore
        (strip_leading CHR ''-'' (squeeze is_hyphen (squeeze disallowed ?y)))"
    by (simp add: one_pass_sanitize_def)
  also have "squeeze disallowed ?y = ?y"
    by (rule squeeze_disallowed_clean [OF one_pass_clean])
  also have "squeeze is_hyphen ?y = ?y"
    by (rule squeeze_hyphen_clean [OF one_pass_clean])
  also have "strip_leading CHR ''-'' ?y = ?y"
    by (rule strip_leading_id [OF one_pass_no_hyphen])
  finally show ?thesis .
qed

lemma butlast_neq: "s \<noteq> [] \<Longrightarrow> butlast s \<noteq> s"
  by (cases s rule: rev_cases) auto

lemma strip_last_fixed:
  "(strip_last_hyphen_or_underscore s = s) = (\<not> ends_in_hyphen_or_underscore s)"
  by (cases s rule: rev_cases) (auto simp: strip_last_butlast ends_in_hyphen_or_underscore_def)

subsection \<open>Idempotence\<close>

text \<open>
  C3 (as stated): the sanitizer is idempotent on every input string. It is not: the
  base name \<open>x_-\<close> is sanitized to \<open>x_\<close>, since the single pass of the last
  replacement removes the final hyphen only, and \<open>x_\<close> is sanitized to \<open>x\<close>.
\<close>

theorem C3_not_idempotent:
  "sanitizeFilename ''x_-'' = ''x_'' \<and> sanitizeFilename ''x_'' = ''x'' \<and>
   sanitizeFilename (sanitizeFilename ''x_-'') \<noteq> sanitizeFilename ''x_-''"
  by code_simp

text \<open>
  C3 (amended): sanitizing a second time changes nothing exactly when the sanitized name
  does not end in a hyphen or an underscore.
\<close>

theorem C3_idempotent_iff:
  "(sanitizeFilename (sanitizeFilename x) = sanitizeFilename x) =
     (\<not> ends_in_hyphen_or_underscore (sanitizeFilename x))"
  by (simp only: sanitize_one_pass one_pass_twice strip_last_fixed)

theorem C3_idempotent_witness:
  "\<not> ends_in_hyphen_or_underscore (sanitizeFilename ''My Video (1)'') \<and>
   sanitizeFilename (sanitizeFilename ''My Video (1)'') = sanitizeFilename ''My Video (1)''"
proof -
  have h: "\<not> ends_in_hyphen_or_underscore (sanitizeFilename ''My Video (1)'')"
    by code_simp
  show ?thesis
    using h C3_idempotent_iff [of "''My Video (1)''"] by simp
qed

subsection \<open>The sanitizer on given names\<close>

text \<open>
  C4 (as stated): the file name \<open>__weird__name_.mov\<close>, its extension stripped and
  sanitized, gives \<open>weird-name\<close>. It does not.
\<close>

theorem C4_not_weird_name:
  "sanitizeFilename ''__weird__name_'' \<noteq> ''weird-name'' \<and>
   baseFilename_of ''source/u1/__weird__name_.mov'' \<noteq> ''weird-name''"
  by code_simp

text \<open>
  C4 (amended): the extension of \<open>__weird__name_.mov\<close> stripped, the base name is
  \<open>__weird__name_\<close>, and the sanitizer gives \<open>__weird__name\<close>: the underscore is a
  character of the allowed class and stays, only the one underscore at the end is
  removed.
\<close>

theorem C4_weird_name:
  "rawFilename_of ''source/u1/__weird__name_.mov'' = ''__weird__name_'' \<and>
   sanitizeFilename ''__weird__name_'' = ''__weird__name'' \<and>
   baseFilename_of ''source/u1/__weird__name_.mov'' = ''__weird__name''"
  by code_simp

text \<open>
  C5 (as stated): the sanitizer applies the trims one after the other (leading hyphen,
  trailing hyphen, trailing underscore), so that the base name \<open>x_-\<close> loses both its
  final characters. The source's sanitizer keeps the underscore.
\<close>

theorem C5_sequential_trims_differ:
  "spec_sanitize ''x_-'' = ''x'' \<and> sanitizeFilename ''x_-'' = ''x_'' \<and>
   sanitizeFilename ''x_-'' \<noteq> spec_sanitize ''x_-''"
  by code_simp

text \<open>
  C5 (amended): for every source key the base name is the file name without its
  extension, sanitized; and for every name the sanitizer replaces each run of characters
  outside \<open>[A-Za-z0-9._]\<close> by one hyphen, collapses runs of hyphens, and then, in one
  pass, removes a hyphen at the start and the final character when it is a hyphen or an
  underscore: at most one character at the end, so that \<open>x_-\<close> gives \<open>x_\<close>. The name
  \<open>My Video (1)\<close> gives \<open>My-Video-1\<close>.
\<close>

theorem C5_sanitize_steps:
  "baseFilename_of sourceKey =
     one_pass_sanitize (path_basename sourceKey (path_extname sourceKey)) \<and>
   sanitizeFilename base = one_pass_sanitize base \<and>
   rawFilename_of ''source/u1/My Video (1).mp4'' = ''My Video (1)'' \<and>
   sanitizeFilename ''My Video (1)'' = ''My-Video-1'' \<and>
   sanitizeFilename ''x_-'' = ''x_''"
proof -
  have "rawFilename_of ''source/u1/My Video (1).mp4'' = ''My Video (1)''"
    by code_simp
  moreover have "sanitizeFilename ''My Video (1)'' = ''My-Video-1''"
    by code_simp
  moreover have "sanitizeFilename ''x_-'' = ''x_''"
    by code_simp
  ultimately show ?thesis
    by (simp add: baseFilename_of_def rawFilename_of_def sanitize_one_pass)
qed

section \<open>The handler\<close>

subsection \<open>The loops and the \<open>try\<close> block\<close>

lemma ladder_trace_exec:
  "a \<in> set (ladder_trace (encode_loop w rs fs)) \<Longrightarrow> \<exists>c. a = Exec c"
  by (induction rs arbitrary: fs) (auto simp: Let_def split: if_splits)

lemma ladder_error_kind:
  "ladder_error (encode_loop w rs fs) = Some e \<Longrightarrow> \<exists>c. e = CommandFailed c"
  by (induction rs arbitrary: fs) (auto simp: Let_def split: if_splits)

lemma ladder_failed_nonempty:
  "ladder_error (encode_loop w rs fs) = Some e \<Longrightarrow> ladder_trace (encode_loop w rs fs) \<noteq> []"
  by (cases rs) (auto simp: Let_def split: if_splits)

lemma ladder_success:
  "ladder_error (encode_loop w rs fs) = None \<Longrightarrow>
     playlists (encode_loop w rs fs) = map playlist_entry rs \<and>
     ladder_trace (encode_loop w rs fs) = map (\<lambda>res. Exec (command_of res)) rs"
  by (induction rs arbitrary: fs) (auto simp: Let_def split: if_splits)

lemma encode_loop_all_ok:
  "(\<And>c. exit_ok (ffmpeg w c)) \<Longrightarrow> ladder_error (encode_loop w rs fs) = None"
  by (induction rs arbitrary: fs) (simp_all add: Let_def)

lemma write_output_file_dir:
  "(output_dir (write_output_file path body fs) = None) = (output_dir fs = None)"
  by (simp add: write_output_file_def)

lemma write_segments_dir:
  "(output_dir (write_segments pat i bs fs) = None) = (output_dir fs = None)"
  by (induction bs arbitrary: i fs) (simp_all add: write_output_file_dir)

lemma write_outputs_dir:
  "(output_dir (write_outputs c r fs) = None) = (output_dir fs = None)"
  by (simp add: write_outputs_def Let_def write_segments_dir write_output_file_dir split: option.splits)

lemma encode_loop_dir:
  "(output_dir (ladder_fs (encode_loop w rs fs)) = None) = (output_dir fs = None)"
  by (induction rs arbitrary: fs) (simp_all add: Let_def write_outputs_dir)

lemma fetched_fs_dir: "output_dir (fetched_fs body fs) \<noteq> None"
  by (simp add: fetched_fs_def ensure_output_dir_def split: option.splits)

lemma dir_put_nonempty: "dir_put k v es \<noteq> []"
  by (cases es) (auto split: if_splits)

lemma dir_put_entry: "(k, v) \<in> set (dir_put k v es)"
  by (induction es) auto

lemma dir_put_name: "k \<in> fst ` set (dir_put k v es)"
  using dir_put_entry [of k v es] by force

lemma insert_name_set: "set (insert_name f gs) = insert f (set gs)"
  by (induction gs) auto

lemma readdirSync_set: "set (readdirSync dir) = fst ` set dir"
  unfolding readdirSync_def by (induction dir) (simp_all add: insert_name_set)

lemma readdirSync_nonempty: "dir \<noteq> [] \<Longrightarrow> readdirSync dir \<noteq> []"
  using readdirSync_set [of dir] by (cases dir) auto

lemma master_fs_dir:
  "\<exists>dir. output_dir (master_fs w body fs) = Some dir \<and> dir \<noteq> [] \<and>
     path_basename (path_join TEMP_OUTPUT_DIR ''master.m3u8'') [] \<in> fst ` set dir"
proof -
  have "output_dir (ladder_fs (encode_loop w resolutions (fetched_fs body fs))) \<noteq> None"
    using fetched_fs_dir [of body fs] by (simp add: encode_loop_dir)
  then obtain dir0 where
    "output_dir (ladder_fs (encode_loop w resolutions (fetched_fs body fs))) = Some dir0"
    by blast
  then show ?thesis
    by (simp add: master_fs_def write_output_file_def dir_put_nonempty dir_put_name)
qed

lemma upload_trace:
  "a \<in> set (snd (upload_loop w b p dir files)) \<Longrightarrow> \<exists>k. a = Upload b k"
  by (induction files) (auto simp: Let_def split: if_splits prod.splits)

lemma upload_trace_nonempty:
  "files \<noteq> [] \<Longrightarrow> snd (upload_loop w b p dir files) \<noteq> []"
  by (cases files) (auto simp: Let_def split: if_splits prod.splits)

lemma upload_error_kind:
  "fst (upload_loop w b p dir files) = Some e \<Longrightarrow> \<exists>k. e = UploadFailed k"
  by (induction files) (auto simp: Let_def split: if_splits prod.splits)

lemma upload_loop_all_ok:
  "(\<And>k body. s3_upload w b k body) \<Longrightarrow>
     upload_loop w b p dir files = (None, map (\<lambda>f. Upload b (path_join p f)) files)"
  by (induction files) (simp_all add: Let_def)

lemma try_block_fetch_failed:
  "s3_getObject w b k = None \<Longrightarrow>
     try_block w b k fs =
       \<lparr>result = Inl GetObjectFailed, fs_after = fs, trace = [GetObject b k]\<rparr>"
  by (simp add: try_block_def)

lemma try_block_encode_failed:
  "s3_getObject w b k = Some body \<Longrightarrow>
   ladder_error (encode_loop w resolutions (fetched_fs body fs)) = Some e \<Longrightarrow>
     try_block w b k fs =
       \<lparr>result = Inl e, fs_after = ladder_fs (encode_loop w resolutions (fetched_fs body fs)),
        trace = GetObject b k # ladder_trace (encode_loop w resolutions (fetched_fs body fs))\<rparr>"
  by (simp add: try_block_def Let_def fetched_fs_def)

lemma try_block_encoded:
  assumes "s3_getObject w b k = Some body"
    and "ladder_error (encode_loop w resolutions (fetched_fs body fs)) = None"
    and "output_dir (master_fs w body fs) = Some dir"
    and "upload_loop w b (targetPrefix_of k) dir (readdirSync dir) = (eo, us)"
  shows "try_block w b k fs =
      \<lparr>result =
         (case eo of
            Some e \<Rightarrow> Inl e
          | None \<Rightarrow>
              if pubsub_publish w (PROJECT_ID w) (PUBSUB_TOPIC w) (response_of w k)
              then Inr (response_of w k) else Inl PublishFailed),
       fs_after = master_fs w body fs,
       trace =
         GetObject b k # map (\<lambda>res. Exec (command_of res)) resolutions @
         [WriteMaster (master_file (map playlist_entry resolutions))] @ us @
         (case eo of Some e \<Rightarrow> [] | None \<Rightarrow> [Publish (response_of w k)])\<rparr>"
proof -
  let ?l = "encode_loop w resolutions (fetched_fs body fs)"
  have pl: "playlists ?l = map playlist_entry resolutions"
    and tr: "ladder_trace ?l = map (\<lambda>res. Exec (command_of res)) resolutions"
    using assms(2) by (auto dest: ladder_success)
  show ?thesis
    using assms pl tr
    by (simp add: try_block_def Let_def fetched_fs_def [symmetric] master_fs_def [symmetric]
        split: option.splits)
qed

lemma try_block_cases [case_names fetch_failed encode_failed upload_failed publish_failed success]:
  assumes fetch_failed:
      "s3_getObject w b k = None \<Longrightarrow>
       P \<lparr>result = Inl GetObjectFailed, fs_after = fs, trace = [GetObject b k]\<rparr>"
    and encode_failed:
      "\<And>c es fs'. (\<forall>a \<in> set es. \<exists>c. a = Exec c) \<Longrightarrow> es \<noteq> [] \<Longrightarrow>
         P \<lparr>result = Inl (CommandFailed c), fs_after = fs', trace = GetObject b k # es\<rparr>"
    and upload_failed:
      "\<And>key us fs'. (\<forall>a \<in> set us. \<exists>k. a = Upload b k) \<Longrightarrow> us \<noteq> [] \<Longrightarrow>
         P \<lparr>result = Inl (UploadFailed key), fs_after = fs',
            trace = GetObject b k # map (\<lambda>res. Exec (command_of res)) resolutions @
              [WriteMaster (master_file (map playlist_entry resolutions))] @ us\<rparr>"
    and publish_failed:
      "\<And>us fs'. (\<forall>a \<in> set us. \<exists>k. a = Upload b k) \<Longrightarrow> us \<noteq> [] \<Longrightarrow>
         \<not> pubsub_publish w (PROJECT_ID w) (PUBSUB_TOPIC w) (response_of w k) \<Longrightarrow>
         P \<lparr>result = Inl PublishFailed, fs_after = fs',
            trace = GetObject b k # map (\<lambda>res. Exec (command_of res)) resolutions @
              [WriteMaster (master_file (map playlist_entry resolutions))] @ us @
              [Publish (response_of w k)]\<rparr>"
    and success:
      "\<And>us fs'. (\<forall>a \<in> set us. \<exists>k. a = Upload b k) \<Longrightarrow> us \<noteq> [] \<Longrightarrow>
         pubsub_publish w (PROJECT_ID w) (PUBSUB_TOPIC w) (response_of w k) \<Longrightarrow>
         P \<lparr>result = Inr (response_of w k), fs_after = fs',
            trace = GetObject b k # map (\<lambda>res. Exec (command_of res)) resolutions @
              [WriteMaster (master_file (map playlist_entry resolutions))] @ us @
              [Publish (response_of w k)]\<rparr>"
  shows "P (try_block w b k fs)"
proof (cases "s3_getObject w b k")
  case None
  with fetch_failed show ?thesis
    by (simp add: try_block_fetch_failed)
next
  case (Some body)
  let ?l = "encode_loop w resolutions (fetched_fs body fs)"
  show ?thesis
  proof (cases "ladder_error ?l")
    case (Some e)
    then obtain c where e: "e = CommandFailed c"
      by (auto dest: ladder_error_kind)
    have "P \<lparr>result = Inl (CommandFailed c), fs_after = ladder_fs ?l,
         trace = GetObject b k # ladder_trace ?l\<rparr>"
    proof (rule encode_failed)
      show "\<forall>a \<in> set (ladder_trace ?l). \<exists>c. a = Exec c"
        by (blast dest: ladder_trace_exec)
    next
      show "ladder_trace ?l \<noteq> []"
        by (rule ladder_failed_nonempty [OF Some])
    qed
    with try_block_encode_failed [OF \<open>s3_getObject w b k = Some body\<close> Some] e
    show ?thesis by simp
  next
    case None
    obtain dir where dir: "output_dir (master_fs w body fs) = Some dir" and "dir \<noteq> []"
      using master_fs_dir [of w body fs] by blast
    then have ne: "readdirSync dir \<noteq> []"
      by (simp add: readdirSync_nonempty)
    obtain eo us where up: "upload_loop w b (targetPrefix_of k) dir (readdirSync dir) = (eo, us)"
      by (cases "upload_loop w b (targetPrefix_of k) dir (readdirSync dir)")
    have us: "\<forall>a \<in> set us. \<exists>k. a = Upload b k"
      using upload_trace [of _ w b "targetPrefix_of k" dir "readdirSync dir"] up by simp
    have us_ne: "us \<noteq> []"
      using upload_trace_nonempty [OF ne, of w b "targetPrefix_of k" dir] up by simp
    note unfold = try_block_encoded [OF \<open>s3_getObject w b k = Some body\<close> None dir up]
    show ?thesis
    proof (cases eo)
      case (Some e)
      then obtain key where "e = UploadFailed key"
        using upload_error_kind [of w b "targetPrefix_of k" dir "readdirSync dir" e] up by auto
      with unfold Some upload_failed [OF us us_ne, of key "master_fs w body fs"] show ?thesis
        by simp
    next
      case None
      show ?thesis
      proof (cases "pubsub_publish w (PROJECT_ID w) (PUBSUB_TOPIC w) (response_of w k)")
        case True
        with unfold None success [OF us us_ne True, of "master_fs w body fs"] show ?thesis
          by simp
      next
        case False
        with unfold None publish_failed [OF us us_ne False, of "master_fs w body fs"] show ?thesis
          by simp
      qed
    qed
  qed
qed

lemma handler_reaches:
  assumes "reaches_try w ev"
  obtains sk r rs key where
    "GCP_SERVICE_KEY w = Some sk" "sk \<noteq> []" "ev = r # rs"
    "decode_key w (object_key r) = Some key" "regex_test sourceKeyPattern key"
    "handler w ev fs =
       \<lparr>result = result (try_block w (bucket_name r) key (fs\<lparr>service_key_file := Some (from_base64 w sk)\<rparr>)),
        fs_after = cleanup (fs_after (try_block w (bucket_name r) key (fs\<lparr>service_key_file := Some (from_base64 w sk)\<rparr>))),
        trace = Authenticate # ValidateKey key #
          trace (try_block w (bucket_name r) key (fs\<lparr>service_key_file := Some (from_base64 w sk)\<rparr>)) @ [Cleanup]\<rparr>"
proof -
  from assms obtain sk where sk: "GCP_SERVICE_KEY w = Some sk" "sk \<noteq> []"
    by (auto simp: reaches_try_def split: option.splits if_splits)
  from assms sk obtain r rs where ev: "ev = r # rs"
    by (auto simp: reaches_try_def split: list.splits)
  from assms sk ev obtain key where key: "decode_key w (object_key r) = Some key"
      "regex_test sourceKeyPattern key"
    by (auto simp: reaches_try_def split: option.splits)
  have h: "handler w ev fs =
       \<lparr>result = result (try_block w (bucket_name r) key (fs\<lparr>service_key_file := Some (from_base64 w sk)\<rparr>)),
        fs_after = cleanup (fs_after (try_block w (bucket_name r) key (fs\<lparr>service_key_file := Some (from_base64 w sk)\<rparr>))),
        trace = Authenticate # ValidateKey key #
          trace (try_block w (bucket_name r) key (fs\<lparr>service_key_file := Some (from_base64 w sk)\<rparr>)) @ [Cleanup]\<rparr>"
    using sk ev key by (simp add: handler_def try_finally_def Let_def)
  show thesis
    by (rule that [OF sk ev key h])
qed

lemma handler_stops:
  assumes "\<not> reaches_try w ev"
  shows "\<exists>e t tr. handler w ev fs = \<lparr>result = Inl e, fs_after = fs\<lparr>service_key_file := t\<rparr>, trace = tr\<rparr> \<and>
           (tr = [Authenticate] \<or> (\<exists>key. tr = [Authenticate, ValidateKey key] \<and> e = InvalidSourceKey key))"
proof (cases "GCP_SERVICE_KEY w")
  case None
  then have "handler w ev fs =
      \<lparr>result = Inl MissingServiceKey, fs_after = fs\<lparr>service_key_file := service_key_file fs\<rparr>,
       trace = [Authenticate]\<rparr>"
    by (simp add: handler_def)
  then show ?thesis by blast
next
  case (Some sk)
  show ?thesis
  proof (cases "sk = []")
    case True
    with Some have "handler w ev fs =
        \<lparr>result = Inl MissingServiceKey, fs_after = fs\<lparr>service_key_file := service_key_file fs\<rparr>,
         trace = [Authenticate]\<rparr>"
      by (simp add: handler_def)
    then show ?thesis by blast
  next
    case False
    show ?thesis
    proof (cases ev)
      case Nil
      with Some False have "handler w ev fs =
          \<lparr>result = Inl TypeError, fs_after = fs\<lparr>service_key_file := Some (from_base64 w sk)\<rparr>,
           trace = [Authenticate]\<rparr>"
        by (simp add: handler_def)
      then show ?thesis by blast
    next
      case (Cons r rs)
      show ?thesis
      proof (cases "decode_key w (object_key r)")
        case None
        with Some False Cons have "handler w ev fs =
            \<lparr>result = Inl URIError, fs_after = fs\<lparr>service_key_file := Some (from_base64 w sk)\<rparr>,
             trace = [Authenticate]\<rparr>"
          by (simp add: handler_def)
        then show ?thesis by blast
      next
        case (Some key)
        with assms \<open>GCP_SERVICE_KEY w = Some sk\<close> False Cons
        have "\<not> regex_test sourceKeyPattern key"
          by (simp add: reaches_try_def)
        with Some \<open>GCP_SERVICE_KEY w = Some sk\<close> False Cons have "handler w ev fs =
            \<lparr>result = Inl (InvalidSourceKey key),
             fs_after = fs\<lparr>service_key_file := Some (from_base64 w sk)\<rparr>,
             trace = [Authenticate, ValidateKey key]\<rparr>"
          by (simp add: handler_def)
        then show ?thesis by blast
      qed
    qed
  qed
qed

lemma cleanup_removes: "input_file (cleanup fs) = None \<and> output_dir (cleanup fs) = None"
  by (simp add: cleanup_def split: option.splits)

lemma try_block_no_cleanup: "Cleanup \<notin> set (trace (try_block w b k fs))"
  by (rule try_block_cases) auto

subsection \<open>Cleanup\<close>

text \<open>
  C2 (as stated): on every exit path, a malformed key and a missing credential variable
  included, the input file and the output directory are removed before the handler
  returns. The credential check and the validation of the key stand before the \<open>try\<close>
  statement, so their errors leave the handler without passing the \<open>finally\<close> block:
  files an earlier invocation left behind are still there afterwards.
\<close>

theorem C2_cleanup_skipped:
  "result (handler good_world malformed_event stale_fs) = Inl (InvalidSourceKey ''source/video.mp4'') \<and>
   trace (handler good_world malformed_event stale_fs) = [Authenticate, ValidateKey ''source/video.mp4''] \<and>
   input_file (fs_after (handler good_world malformed_event stale_fs)) = Some ''earlier video'' \<and>
   output_dir (fs_after (handler good_world malformed_event stale_fs)) =
     Some [(''1080p_000.ts'', ''earlier segment'')] \<and>
   result (handler no_credential_world good_event stale_fs) = Inl MissingServiceKey \<and>
   trace (handler no_credential_world good_event stale_fs) = [Authenticate] \<and>
   input_file (fs_after (handler no_credential_world good_event stale_fs)) = Some ''earlier video'' \<and>
   output_dir (fs_after (handler no_credential_world good_event stale_fs)) =
     Some [(''1080p_000.ts'', ''earlier segment'')]"
  by code_simp

text \<open>
  C2 (amended): when the handler reaches its \<open>try\<close> statement (the credential variable
  is set, the event has a record, the key decodes and matches the pattern), then whatever
  the outcome (success, or a failed fetch, encoder run, upload or publication) the
  \<open>finally\<close> block runs once, as the last action, and neither the input file nor the
  output directory exists afterwards. When it does not reach the \<open>try\<close> statement, it
  ends in an error without running the cleanup, and the input file and the output
  directory are as they were when the handler was entered.
\<close>

theorem C2_cleanup:
  "if reaches_try w ev
   then input_file (fs_after (handler w ev fs)) = None \<and>
        output_dir (fs_after (handler w ev fs)) = None \<and>
        count_list (trace (handler w ev fs)) Cleanup = 1 \<and>
        last (trace (handler w ev fs)) = Cleanup
   else input_file (fs_after (handler w ev fs)) = input_file fs \<and>
        output_dir (fs_after (handler w ev fs)) = output_dir fs \<and>
        count_list (trace (handler w ev fs)) Cleanup = 0 \<and>
        isl (result (handler w ev fs))"
proof (cases "reaches_try w ev")
  case True
  show ?thesis
  proof (rule handler_reaches [OF True, of fs])
    fix sk r rs key
    assume "handler w ev fs =
       \<lparr>result = result (try_block w (bucket_name r) key (fs\<lparr>service_key_file := Some (from_base64 w sk)\<rparr>)),
        fs_after = cleanup (fs_after (try_block w (bucket_name r) key (fs\<lparr>service_key_file := Some (from_base64 w sk)\<rparr>))),
        trace = Authenticate # ValidateKey key #
          trace (try_block w (bucket_name r) key (fs\<lparr>service_key_file := Some (from_base64 w sk)\<rparr>)) @ [Cleanup]\<rparr>"
    with True show ?thesis
      by (simp add: cleanup_removes try_block_no_cleanup count_list_0_iff)
  qed
next
  case False
  from handler_stops [OF False, of fs] obtain e t tr where
    "handler w ev fs = \<lparr>result = Inl e, fs_after = fs\<lparr>service_key_file := t\<rparr>, trace = tr\<rparr>"
    "tr = [Authenticate] \<or> (\<exists>key. tr = [Authenticate, ValidateKey key] \<and> e = InvalidSourceKey key)"
    by blast
  with False show ?thesis by auto
qed




lemma handler_valid:
  assumes "GCP_SERVICE_KEY w = Some sk" "sk \<noteq> []"
    and "decode_key w (object_key r) = Some key" "regex_test sourceKeyPattern key"
  shows "handler w (r # rs) fs =
       \<lparr>result = result (try_block w (bucket_name r) key (fs\<lparr>service_key_file := Some (from_base64 w sk)\<rparr>)),
        fs_after = cleanup (fs_after (try_block w (bucket_name r) key (fs\<lparr>service_key_file := Some (from_base64 w sk)\<rparr>))),
        trace = Authenticate # ValidateKey key #
          trace (try_block w (bucket_name r) key (fs\<lparr>service_key_file := Some (from_base64 w sk)\<rparr>)) @ [Cleanup]\<rparr>"
  using assms by (simp add: handler_def try_finally_def Let_def)

lemma handler_invalid:
  assumes "GCP_SERVICE_KEY w = Some sk" "sk \<noteq> []"
    and "decode_key w (object_key r) = Some key" "\<not> regex_test sourceKeyPattern key"
  shows "handler w (r # rs) fs =
       \<lparr>result = Inl (InvalidSourceKey key),
        fs_after = fs\<lparr>service_key_file := Some (from_base64 w sk)\<rparr>,
        trace = [Authenticate, ValidateKey key]\<rparr>"
  using assms by (simp add: handler_def)

lemma stages_run:
  assumes "xs \<noteq> []" and "\<And>a. a \<in> set xs \<Longrightarrow> stage_of a = c"
  shows "remdups_adj (d # map stage_of (xs @ ys)) =
     (if d = c then remdups_adj (c # map stage_of ys) else d # remdups_adj (c # map stage_of ys))"
  using assms
proof (induction xs arbitrary: d)
  case Nil
  then show ?case by simp
next
  case (Cons x xs)
  have x: "stage_of x = c"
    using Cons.prems(2) by simp
  show ?case
  proof (cases "xs = []")
    case True
    with x show ?thesis by simp
  next
    case False
    have "remdups_adj (c # map stage_of (xs @ ys)) = remdups_adj (c # map stage_of ys)"
      using Cons.IH [OF False, of c] Cons.prems(2) by simp
    with x show ?thesis by simp
  qed
qed

lemma exec_stage: "\<forall>a \<in> set es. \<exists>c. a = Exec c \<Longrightarrow> a \<in> set es \<Longrightarrow> stage_of a = EncodeLadder"
  by fastforce

lemma upload_stage: "\<forall>a \<in> set us. \<exists>k. a = Upload b k \<Longrightarrow> a \<in> set us \<Longrightarrow> stage_of a = UploadAll"
  by fastforce

lemma fetches_append: "fetches (xs @ ys) = fetches xs @ fetches ys"
  by (induction xs rule: fetches.induct) simp_all

lemma uploads_append: "uploads (xs @ ys) = uploads xs @ uploads ys"
  by (induction xs rule: uploads.induct) simp_all

lemma masters_written_append: "masters_written (xs @ ys) = masters_written xs @ masters_written ys"
  by (induction xs rule: masters_written.induct) simp_all

lemma encoder_runs_append: "encoder_runs (xs @ ys) = encoder_runs xs @ encoder_runs ys"
  by (induction xs rule: encoder_runs.induct) simp_all

lemma try_block_stages:
  "stages (Authenticate # ValidateKey key # trace (try_block w b k fs) @ [Cleanup]) \<in>
     set stage_sequences \<and>
   take 3 (stages (Authenticate # ValidateKey key # trace (try_block w b k fs) @ [Cleanup])) =
     [Credentials, Validate, Fetch] \<and>
   (isl (result (try_block w b k fs)) \<or>
        stages (Authenticate # ValidateKey key # trace (try_block w b k fs) @ [Cleanup]) =
          [Credentials, Validate, Fetch, EncodeLadder, SynthesizeMaster, UploadAll, Notify,
           CleanupStage])"
proof (rule try_block_cases)
  show "s3_getObject w b k = None \<Longrightarrow>
    stages (Authenticate # ValidateKey key #
      trace \<lparr>result = Inl GetObjectFailed, fs_after = fs, trace = [GetObject b k]\<rparr> @ [Cleanup]) \<in>
     set stage_sequences \<and>
    take 3 (stages (Authenticate # ValidateKey key #
      trace \<lparr>result = Inl GetObjectFailed, fs_after = fs, trace = [GetObject b k]\<rparr> @ [Cleanup])) =
     [Credentials, Validate, Fetch] \<and>
    (isl (result \<lparr>result = Inl GetObjectFailed, fs_after = fs, trace = [GetObject b k]\<rparr>) \<or>
        stages (Authenticate # ValidateKey key #
          trace \<lparr>result = Inl GetObjectFailed, fs_after = fs, trace = [GetObject b k]\<rparr> @ [Cleanup]) =
          [Credentials, Validate, Fetch, EncodeLadder, SynthesizeMaster, UploadAll, Notify,
           CleanupStage])"
    by (simp add: stages_def stage_sequences_def)
next
  fix c es fs'
  assume es: "\<forall>a \<in> set es. \<exists>c. a = Exec c" "es \<noteq> []"
  have "remdups_adj (Fetch # map stage_of (es @ [Cleanup])) = [Fetch, EncodeLadder, CleanupStage]"
    using stages_run [OF es(2) exec_stage [OF es(1)], where d = Fetch and ys = "[Cleanup]"] by simp
  then show "stages (Authenticate # ValidateKey key #
      trace \<lparr>result = Inl (CommandFailed c), fs_after = fs', trace = GetObject b k # es\<rparr> @ [Cleanup]) \<in>
     set stage_sequences \<and>
    take 3 (stages (Authenticate # ValidateKey key #
      trace \<lparr>result = Inl (CommandFailed c), fs_after = fs', trace = GetObject b k # es\<rparr> @ [Cleanup])) =
     [Credentials, Validate, Fetch] \<and>
    (isl (result \<lparr>result = Inl (CommandFailed c), fs_after = fs', trace = GetObject b k # es\<rparr>) \<or>
        stages (Authenticate # ValidateKey key #
          trace \<lparr>result = Inl (CommandFailed c), fs_after = fs', trace = GetObject b k # es\<rparr> @ [Cleanup]) =
          [Credentials, Validate, Fetch, EncodeLadder, SynthesizeMaster, UploadAll, Notify,
           CleanupStage])"
    by (simp add: stages_def stage_sequences_def)
next
  fix keyf us fs'
  assume us: "\<forall>a \<in> set us. \<exists>k. a = Upload b k" "us \<noteq> []"
  let ?tr = "GetObject b k # map (\<lambda>res. Exec (command_of res)) resolutions @
              [WriteMaster (master_file (map playlist_entry resolutions))] @ us"
  have "remdups_adj (SynthesizeMaster # map stage_of (us @ [Cleanup])) =
      [SynthesizeMaster, UploadAll, CleanupStage]"
    using stages_run [OF us(2) upload_stage [OF us(1)], where d = SynthesizeMaster and ys = "[Cleanup]"] by simp
  then show "stages (Authenticate # ValidateKey key #
      trace \<lparr>result = Inl (UploadFailed keyf), fs_after = fs', trace = ?tr\<rparr> @ [Cleanup]) \<in>
     set stage_sequences \<and>
    take 3 (stages (Authenticate # ValidateKey key #
      trace \<lparr>result = Inl (UploadFailed keyf), fs_after = fs', trace = ?tr\<rparr> @ [Cleanup])) =
     [Credentials, Validate, Fetch] \<and>
    (isl (result \<lparr>result = Inl (UploadFailed keyf), fs_after = fs', trace = ?tr\<rparr>) \<or>
        stages (Authenticate # ValidateKey key #
          trace \<lparr>result = Inl (UploadFailed keyf), fs_after = fs', trace = ?tr\<rparr> @ [Cleanup]) =
          [Credentials, Validate, Fetch, EncodeLadder, SynthesizeMaster, UploadAll, Notify,
           CleanupStage])"
    by (simp add: stages_def stage_sequences_def resolutions_def)
next
  fix us fs'
  assume us: "\<forall>a \<in> set us. \<exists>k. a = Upload b k" "us \<noteq> []"
  let ?tr = "GetObject b k # map (\<lambda>res. Exec (command_of res)) resolutions @
              [WriteMaster (master_file (map playlist_entry resolutions))] @ us @
              [Publish (response_of w k)]"
  have run: "remdups_adj (SynthesizeMaster # map stage_of (us @ [Publish (response_of w k), Cleanup])) =
      [SynthesizeMaster, UploadAll, Notify, CleanupStage]"
    using stages_run [OF us(2) upload_stage [OF us(1)], where d = SynthesizeMaster
        and ys = "[Publish (response_of w k), Cleanup]"] by simp
  then show "stages (Authenticate # ValidateKey key #
      trace \<lparr>result = Inl PublishFailed, fs_after = fs', trace = ?tr\<rparr> @ [Cleanup]) \<in>
     set stage_sequences \<and>
    take 3 (stages (Authenticate # ValidateKey key #
      trace \<lparr>result = Inl PublishFailed, fs_after = fs', trace = ?tr\<rparr> @ [Cleanup])) =
     [Credentials, Validate, Fetch] \<and>
    (isl (result \<lparr>result = Inl PublishFailed, fs_after = fs', trace = ?tr\<rparr>) \<or>
        stages (Authenticate # ValidateKey key #
          trace \<lparr>result = Inl PublishFailed, fs_after = fs', trace = ?tr\<rparr> @ [Cleanup]) =
          [Credentials, Validate, Fetch, EncodeLadder, SynthesizeMaster, UploadAll, Notify,
           CleanupStage])"
    by (simp add: stages_def stage_sequences_def resolutions_def)
  from run show "stages (Authenticate # ValidateKey key #
      trace \<lparr>result = Inr (response_of w k), fs_after = fs', trace = ?tr\<rparr> @ [Cleanup]) \<in>
     set stage_sequences \<and>
    take 3 (stages (Authenticate # ValidateKey key #
      trace \<lparr>result = Inr (response_of w k), fs_after = fs', trace = ?tr\<rparr> @ [Cleanup])) =
     [Credentials, Validate, Fetch] \<and>
    (isl (result \<lparr>result = Inr (response_of w k), fs_after = fs', trace = ?tr\<rparr>) \<or>
        stages (Authenticate # ValidateKey key #
          trace \<lparr>result = Inr (response_of w k), fs_after = fs', trace = ?tr\<rparr> @ [Cleanup]) =
          [Credentials, Validate, Fetch, EncodeLadder, SynthesizeMaster, UploadAll, Notify,
           CleanupStage])"
    by (simp add: stages_def stage_sequences_def resolutions_def)
qed


subsection \<open>The order of the stages\<close>

text \<open>
  C6 (as stated): the source object is fetched before the key is validated, so that a
  fetch is attempted even for a malformed key. The handler validates first: for the key
  \<open>source/video.mp4\<close> it ends with the validation error and has asked the object store
  for nothing.
\<close>

theorem C6_no_fetch_for_malformed_key:
  "result (handler good_world malformed_event empty_fs) = Inl (InvalidSourceKey ''source/video.mp4'') \<and>
   trace (handler good_world malformed_event empty_fs) = [Authenticate, ValidateKey ''source/video.mp4''] \<and>
   fetches (trace (handler good_world malformed_event empty_fs)) = []"
  by code_simp

text \<open>
  C6 (amended): the stages run in the order Validate, Fetch, Encode Ladder, Synthesize
  Master, Upload All, Notify (after the credential setup, and with the cleanup at the end
  once the \<open>try\<close> statement was entered): the stages of every run are one of the
  sequences of \<open>stage_sequences\<close>. The key is validated before the object is fetched: a
  run that reaches the \<open>try\<close> statement starts with the credential setup, the
  validation and the fetch, any other run fetches nothing; and a run that does not end in
  an error goes through all the stages in this order.
\<close>

theorem C6_stage_order:
  "stages (trace (handler w ev fs)) \<in> set stage_sequences \<and>
   (if reaches_try w ev
    then take 3 (stages (trace (handler w ev fs))) = [Credentials, Validate, Fetch]
    else fetches (trace (handler w ev fs)) = []) \<and>
   (isl (result (handler w ev fs)) \<or>
        stages (trace (handler w ev fs)) =
          [Credentials, Validate, Fetch, EncodeLadder, SynthesizeMaster, UploadAll, Notify,
           CleanupStage])"
proof (cases "reaches_try w ev")
  case True
  show ?thesis
  proof (rule handler_reaches [OF True, of fs])
    fix sk r key and rs :: "s3_record list"
    assume "handler w ev fs =
       \<lparr>result = result (try_block w (bucket_name r) key (fs\<lparr>service_key_file := Some (from_base64 w sk)\<rparr>)),
        fs_after = cleanup (fs_after (try_block w (bucket_name r) key (fs\<lparr>service_key_file := Some (from_base64 w sk)\<rparr>))),
        trace = Authenticate # ValidateKey key #
          trace (try_block w (bucket_name r) key (fs\<lparr>service_key_file := Some (from_base64 w sk)\<rparr>)) @ [Cleanup]\<rparr>"
    with True try_block_stages [of key w "bucket_name r" key "fs\<lparr>service_key_file := Some (from_base64 w sk)\<rparr>"]
    show ?thesis by simp
  qed
next
  case False
  from handler_stops [OF False, of fs] obtain e t tr where
    "handler w ev fs = \<lparr>result = Inl e, fs_after = fs\<lparr>service_key_file := t\<rparr>, trace = tr\<rparr>"
    "tr = [Authenticate] \<or> (\<exists>key. tr = [Authenticate, ValidateKey key] \<and> e = InvalidSourceKey key)"
    by blast
  with False show ?thesis
    by (auto simp: stages_def stage_sequences_def)
qed

lemma uploads_execs: "\<forall>a \<in> set es. \<exists>c. a = Exec c \<Longrightarrow> uploads es = [] \<and> fetches es = []"
  by (induction es) auto

lemma fetches_uploads: "\<forall>a \<in> set us. \<exists>k. a = Upload b k \<Longrightarrow> fetches us = []"
  by (induction us) auto

lemma uploads_bucket:
  "\<forall>a \<in> set us. \<exists>k. a = Upload b k \<Longrightarrow> (b', k') \<in> set (uploads us) \<Longrightarrow> b' = b"
  by (induction us) auto

lemma try_block_buckets:
  "fetches (trace (try_block w b k fs)) = [(b, k)] \<and>
   (\<forall>x \<in> set (uploads (trace (try_block w b k fs))). fst x = b)"
  by (rule try_block_cases)
    (auto simp: resolutions_def fetches_append uploads_append uploads_execs
      fetches_uploads dest: uploads_bucket)

subsection \<open>The target bucket\<close>

text \<open>
  C10: every object the handler uploads goes to the bucket of the event's record, the
  bucket the source object is read from: every upload (and the fetch) of a run names the
  bucket \<open>record.s3.bucket.name\<close> of the first record.
\<close>

theorem C10_target_bucket:
  assumes "(b, key) \<in> set (uploads (trace (handler w (r # rs) fs))) \<or>
           (b, key) \<in> set (fetches (trace (handler w (r # rs) fs)))"
  shows "b = bucket_name r"
proof (cases "reaches_try w (r # rs)")
  case True
  show ?thesis
  proof (rule handler_reaches [OF True, of fs])
    fix sk r' k and rs' :: "s3_record list"
    assume ev: "r # rs = r' # rs'"
      and h: "handler w (r # rs) fs =
       \<lparr>result = result (try_block w (bucket_name r') k (fs\<lparr>service_key_file := Some (from_base64 w sk)\<rparr>)),
        fs_after = cleanup (fs_after (try_block w (bucket_name r') k (fs\<lparr>service_key_file := Some (from_base64 w sk)\<rparr>))),
        trace = Authenticate # ValidateKey k #
          trace (try_block w (bucket_name r') k (fs\<lparr>service_key_file := Some (from_base64 w sk)\<rparr>)) @ [Cleanup]\<rparr>"
    from ev have "r' = r" by simp
    with assms h try_block_buckets [of w "bucket_name r" k "fs\<lparr>service_key_file := Some (from_base64 w sk)\<rparr>"]
    show ?thesis
      by (auto simp: fetches_append uploads_append)
  qed
next
  case False
  from handler_stops [OF False, of fs] obtain e t tr where
    "handler w (r # rs) fs = \<lparr>result = Inl e, fs_after = fs\<lparr>service_key_file := t\<rparr>, trace = tr\<rparr>"
    "tr = [Authenticate] \<or> (\<exists>key. tr = [Authenticate, ValidateKey key] \<and> e = InvalidSourceKey key)"
    by blast
  with assms show ?thesis by auto
qed

lemma try_block_all_ok:
  assumes get: "s3_getObject w b k = Some body"
    and enc: "\<And>c. exit_ok (ffmpeg w c)"
    and up: "\<And>key body. s3_upload w b key body"
    and pub: "pubsub_publish w (PROJECT_ID w) (PUBSUB_TOPIC w) (response_of w k)"
  obtains files where
    "path_basename (path_join TEMP_OUTPUT_DIR ''master.m3u8'') [] \<in> set files"
    "try_block w b k fs =
       \<lparr>result = Inr (response_of w k), fs_after = master_fs w body fs,
        trace =
          GetObject b k # map (\<lambda>res. Exec (command_of res)) resolutions @
          [WriteMaster (master_file (map playlist_entry resolutions))] @
          map (\<lambda>f. Upload b (path_join (targetPrefix_of k) f)) files @
          [Publish (response_of w k)]\<rparr>"
proof -
  obtain dir where dir: "output_dir (master_fs w body fs) = Some dir"
    and name: "path_basename (path_join TEMP_OUTPUT_DIR ''master.m3u8'') [] \<in> fst ` set dir"
    using master_fs_dir [of w body fs] by blast
  have l: "ladder_error (encode_loop w resolutions (fetched_fs body fs)) = None"
    by (rule encode_loop_all_ok) (rule enc)
  have u: "upload_loop w b (targetPrefix_of k) dir (readdirSync dir) =
      (None, map (\<lambda>f. Upload b (path_join (targetPrefix_of k) f)) (readdirSync dir))"
    by (rule upload_loop_all_ok) (rule up)
  have name': "path_basename (path_join TEMP_OUTPUT_DIR ''master.m3u8'') [] \<in> set (readdirSync dir)"
    using name by (simp add: readdirSync_set)
  have eq: "try_block w b k fs =
       \<lparr>result = Inr (response_of w k), fs_after = master_fs w body fs,
        trace =
          GetObject b k # map (\<lambda>res. Exec (command_of res)) resolutions @
          [WriteMaster (master_file (map playlist_entry resolutions))] @
          map (\<lambda>f. Upload b (path_join (targetPrefix_of k) f)) (readdirSync dir) @
          [Publish (response_of w k)]\<rparr>"
    unfolding try_block_encoded [OF get l dir u] using pub by simp
  show thesis
    by (rule that [OF name' eq])
qed

lemma uploads_map_Upload:
  "uploads (map (\<lambda>f. Upload b (g f)) fs) = map (\<lambda>f. (b, g f)) fs"
  by (induction fs) simp_all

lemma masters_written_map_Upload:
  "masters_written (map (\<lambda>f. Upload b (g f)) fs) = []"
  by (induction fs) simp_all

lemma good_world_fields:
  "GCP_SERVICE_KEY good_world = Some ''a2V5''"
  "from_base64 good_world x = ''key''"
  "s3_getObject good_world b k = Some ''video''"
  "exit_ok (ffmpeg good_world c)"
  "s3_upload good_world b k body"
  "pubsub_publish good_world p t m"
  by (simp_all add: good_world_def)

lemma good_key:
  "decode_key good_world ''source/u1/My+Video+(1).mp4'' = Some ''source/u1/My Video (1).mp4''"
  "regex_test sourceKeyPattern ''source/u1/My Video (1).mp4''"
  by code_simp+

lemma good_master_key:
  "path_join (targetPrefix_of ''source/u1/My Video (1).mp4'')
     (path_basename (path_join TEMP_OUTPUT_DIR ''master.m3u8'') []) =
   ''hls/u1/My-Video-1/master.m3u8''"
  by code_simp

lemma good_run:
  obtains files where
    "path_basename (path_join TEMP_OUTPUT_DIR ''master.m3u8'') [] \<in> set files"
    "handler good_world good_event fs =
       \<lparr>result = Inr (response_of good_world ''source/u1/My Video (1).mp4''),
        fs_after = cleanup (master_fs good_world ''video'' (fs\<lparr>service_key_file := Some ''key''\<rparr>)),
        trace =
          Authenticate # ValidateKey ''source/u1/My Video (1).mp4'' #
          (GetObject ''media'' ''source/u1/My Video (1).mp4'' #
           map (\<lambda>res. Exec (command_of res)) resolutions @
           [WriteMaster (master_file (map playlist_entry resolutions))] @
           map (\<lambda>f. Upload ''media'' (path_join (targetPrefix_of ''source/u1/My Video (1).mp4'') f))
             files @
           [Publish (response_of good_world ''source/u1/My Video (1).mp4'')]) @ [Cleanup]\<rparr>"
proof -
  let ?k = "''source/u1/My Video (1).mp4''"
  let ?fs = "fs\<lparr>service_key_file := Some ''key''\<rparr>"
  have h: "handler good_world good_event fs =
       \<lparr>result = result (try_block good_world ''media'' ?k ?fs),
        fs_after = cleanup (fs_after (try_block good_world ''media'' ?k ?fs)),
        trace = Authenticate # ValidateKey ?k # trace (try_block good_world ''media'' ?k ?fs) @ [Cleanup]\<rparr>"
    unfolding good_event_def
    using handler_valid [of good_world "''a2V5''"
        "\<lparr>bucket_name = ''media'', object_key = ''source/u1/My+Video+(1).mp4''\<rparr>" ?k "[]" fs]
    by (simp add: good_world_fields good_key)
  show thesis
  proof (rule try_block_all_ok [of good_world "''media''" ?k "''video''" ?fs])
    show "s3_getObject good_world ''media'' ?k = Some ''video''"
      by (rule good_world_fields)
  next
    show "\<And>c. exit_ok (ffmpeg good_world c)"
      by (rule good_world_fields)
  next
    show "\<And>key body. s3_upload good_world ''media'' key body"
      by (rule good_world_fields)
  next
    show "pubsub_publish good_world (PROJECT_ID good_world) (PUBSUB_TOPIC good_world)
        (response_of good_world ?k)"
      by (rule good_world_fields)
  next
    fix files
    assume name: "path_basename (path_join TEMP_OUTPUT_DIR ''master.m3u8'') [] \<in> set files"
      and tb: "try_block good_world ''media'' ?k ?fs =
       \<lparr>result = Inr (response_of good_world ?k), fs_after = master_fs good_world ''video'' ?fs,
        trace =
          GetObject ''media'' ?k # map (\<lambda>res. Exec (command_of res)) resolutions @
          [WriteMaster (master_file (map playlist_entry resolutions))] @
          map (\<lambda>f. Upload ''media'' (path_join (targetPrefix_of ?k) f)) files @
          [Publish (response_of good_world ?k)]\<rparr>"
    show thesis
      by (rule that [OF name]) (simp only: h tb outcome.simps)
  qed
qed

lemma good_result:
  "result (handler good_world good_event fs) =
     Inr (response_of good_world ''source/u1/My Video (1).mp4'')"
  by (rule good_run [of fs]) simp

lemma good_uploads_master:
  "(''media'', ''hls/u1/My-Video-1/master.m3u8'') \<in>
     set (uploads (trace (handler good_world good_event fs)))"
proof (rule good_run [of fs])
  fix files
  assume name: "path_basename (path_join TEMP_OUTPUT_DIR ''master.m3u8'') [] \<in> set files"
    and h: "handler good_world good_event fs =
       \<lparr>result = Inr (response_of good_world ''source/u1/My Video (1).mp4''),
        fs_after = cleanup (master_fs good_world ''video'' (fs\<lparr>service_key_file := Some ''key''\<rparr>)),
        trace =
          Authenticate # ValidateKey ''source/u1/My Video (1).mp4'' #
          (GetObject ''media'' ''source/u1/My Video (1).mp4'' #
           map (\<lambda>res. Exec (command_of res)) resolutions @
           [WriteMaster (master_file (map playlist_entry resolutions))] @
           map (\<lambda>f. Upload ''media'' (path_join (targetPrefix_of ''source/u1/My Video (1).mp4'') f))
             files @
           [Publish (response_of good_world ''source/u1/My Video (1).mp4'')]) @ [Cleanup]\<rparr>"
  have "uploads (trace (handler good_world good_event fs)) =
      map (\<lambda>f. (''media'', path_join (targetPrefix_of ''source/u1/My Video (1).mp4'') f)) files"
    unfolding h by (simp add: resolutions_def uploads_append uploads_map_Upload)
  moreover have "(''media'', path_join (targetPrefix_of ''source/u1/My Video (1).mp4'')
      (path_basename (path_join TEMP_OUTPUT_DIR ''master.m3u8'') [])) \<in>
     set (map (\<lambda>f. (''media'', path_join (targetPrefix_of ''source/u1/My Video (1).mp4'') f)) files)"
    using name by (simp only: set_map) (rule imageI)
  ultimately show ?thesis
    by (simp only: good_master_key)
qed

lemma good_master_written:
  "masters_written (trace (handler good_world good_event fs)) =
     [master_file (map playlist_entry resolutions)]"
  by (rule good_run [of fs])
    (simp add: resolutions_def masters_written_append masters_written_map_Upload)

text \<open>
  Runs for C2: a success, a failed fetch, a failed encoder run, a failed upload and a
  failed publication, all on a file system with files of an earlier invocation, end
  without the input file and the output directory; the run on a malformed key leaves
  the earlier files where they were.
\<close>

theorem C2_cleanup_witness:
  "reaches_try good_world good_event \<and>
   result (handler good_world good_event stale_fs) =
     Inr (response_of good_world ''source/u1/My Video (1).mp4'') \<and>
   input_file (fs_after (handler good_world good_event stale_fs)) = None \<and>
   output_dir (fs_after (handler good_world good_event stale_fs)) = None \<and>
   reaches_try fetch_fails_world good_event \<and>
   result (handler fetch_fails_world good_event stale_fs) = Inl GetObjectFailed \<and>
   input_file (fs_after (handler fetch_fails_world good_event stale_fs)) = None \<and>
   output_dir (fs_after (handler fetch_fails_world good_event stale_fs)) = None \<and>
   reaches_try second_encode_fails_world good_event \<and>
   input_file (fs_after (handler second_encode_fails_world good_event stale_fs)) = None \<and>
   output_dir (fs_after (handler second_encode_fails_world good_event stale_fs)) = None \<and>
   reaches_try upload_fails_world good_event \<and>
   input_file (fs_after (handler upload_fails_world good_event stale_fs)) = None \<and>
   output_dir (fs_after (handler upload_fails_world good_event stale_fs)) = None \<and>
   reaches_try publish_fails_world good_event \<and>
   input_file (fs_after (handler publish_fails_world good_event stale_fs)) = None \<and>
   output_dir (fs_after (handler publish_fails_world good_event stale_fs)) = None \<and>
   \<not> reaches_try good_world malformed_event \<and>
   input_file (fs_after (handler good_world malformed_event stale_fs)) = Some ''earlier video'' \<and>
   output_dir (fs_after (handler good_world malformed_event stale_fs)) =
     Some [(''1080p_000.ts'', ''earlier segment'')]"
proof -
  have r1: "reaches_try good_world good_event"
    by code_simp
  have r2: "reaches_try fetch_fails_world good_event"
    by code_simp
  have r3: "reaches_try second_encode_fails_world good_event"
    by code_simp
  have r4: "reaches_try upload_fails_world good_event"
    by code_simp
  have r5: "reaches_try publish_fails_world good_event"
    by code_simp
  have r6: "\<not> reaches_try good_world malformed_event"
    by code_simp
  have e2: "result (handler fetch_fails_world good_event stale_fs) = Inl GetObjectFailed"
    by code_simp
  show ?thesis
    using r1 r2 r3 r4 r5 r6 e2 good_result [of stale_fs]
      C2_cleanup [of good_world good_event stale_fs]
      C2_cleanup [of fetch_fails_world good_event stale_fs]
      C2_cleanup [of second_encode_fails_world good_event stale_fs]
      C2_cleanup [of upload_fails_world good_event stale_fs]
      C2_cleanup [of publish_fails_world good_event stale_fs]
      C2_cleanup [of good_world malformed_event stale_fs]
    by (simp add: stale_fs_def)
qed

text \<open>A successful run, for C6: it goes through all the stages in order.\<close>

theorem C6_stage_order_witness:
  "reaches_try good_world good_event \<and>
   \<not> isl (result (handler good_world good_event empty_fs)) \<and>
   stages (trace (handler good_world good_event empty_fs)) \<in> set stage_sequences \<and>
   stages (trace (handler good_world good_event empty_fs)) =
     [Credentials, Validate, Fetch, EncodeLadder, SynthesizeMaster, UploadAll, Notify,
      CleanupStage]"
proof -
  have r: "reaches_try good_world good_event"
    by code_simp
  have ok: "\<not> isl (result (handler good_world good_event empty_fs))"
    by (simp add: good_result)
  note c = C6_stage_order [of good_world good_event empty_fs]
  from c have a: "stages (trace (handler good_world good_event empty_fs)) \<in> set stage_sequences"
    by (rule conjunct1)
  from c ok have b: "stages (trace (handler good_world good_event empty_fs)) =
     [Credentials, Validate, Fetch, EncodeLadder, SynthesizeMaster, UploadAll, Notify,
      CleanupStage]"
    by blast
  from r ok a b show ?thesis
    by (intro conjI)
qed

text \<open>A run for C10: the master playlist is uploaded to the bucket of the event.\<close>

theorem C10_target_bucket_witness:
  "(''media'', ''hls/u1/My-Video-1/master.m3u8'') \<in>
     set (uploads (trace (handler good_world good_event empty_fs))) \<and>
   bucket_name (hd good_event) = ''media''"
proof -
  have m: "(''media'', ''hls/u1/My-Video-1/master.m3u8'') \<in>
     set (uploads (trace (handler good_world
       (\<lparr>bucket_name = ''media'', object_key = ''source/u1/My+Video+(1).mp4''\<rparr> # []) empty_fs)))"
    using good_uploads_master [of empty_fs] by (simp only: good_event_def)
  have "''media'' =
      bucket_name \<lparr>bucket_name = ''media'', object_key = ''source/u1/My+Video+(1).mp4''\<rparr>"
    by (rule C10_target_bucket [of "''media''" "''hls/u1/My-Video-1/master.m3u8''" good_world
          "\<lparr>bucket_name = ''media'', object_key = ''source/u1/My+Video+(1).mp4''\<rparr>" "[]" empty_fs])
      (rule disjI1, rule m)
  then show ?thesis
    using good_uploads_master [of empty_fs] by (simp add: good_event_def)
qed

section \<open>The validation of the source key\<close>

lemma accepts_iff: "accepts as b s = (seq_ends as b s \<noteq> [])"
  by (simp add: accepts_def split: list.splits)

lemma accepts_Nil: "accepts [] b s"
  by (simp add: accepts_iff)

lemma accepts_Bol: "accepts (Bol # as) b s = (b \<and> accepts as b s)"
  by (cases b) (simp_all add: accepts_iff)

lemma accepts_Eol: "accepts (Eol # as) b s = (s = [] \<and> accepts as b [])"
  by (simp add: accepts_iff)

lemma accepts_Chr: "accepts (Chr c # as) b s = (\<exists>t. s = c # t \<and> accepts as False t)"
  by (cases s) (auto simp: accepts_iff)

lemma take_all_p:
  "n \<le> length (takeWhile p s) \<Longrightarrow> list_all p (take n s)"
  by (induction s arbitrary: n) (auto simp: take_Cons' split: if_splits)

lemma accepts_ClsPlus_length:
  "accepts (ClsPlus p # as) b s =
     (\<exists>n. 1 \<le> n \<and> n \<le> length (takeWhile p s) \<and> accepts as False (drop n s))"
proof -
  have "accepts (ClsPlus p # as) b s =
      (\<exists>n \<in> set (rev [1 ..< Suc (length (takeWhile p s))]).
         seq_ends as (b \<and> n = 0) (drop n s) \<noteq> [])"
    by (simp add: accepts_iff del: upt_Suc)
  also have "\<dots> = (\<exists>n. 1 \<le> n \<and> n \<le> length (takeWhile p s) \<and> accepts as False (drop n s))"
    by (auto simp: accepts_iff simp del: upt_Suc)
  finally show ?thesis .
qed

lemma accepts_ClsPlus:
  "accepts (ClsPlus p # as) b s =
     (\<exists>u v. s = u @ v \<and> u \<noteq> [] \<and> list_all p u \<and> accepts as False v)"
proof
  assume "accepts (ClsPlus p # as) b s"
  then obtain n where n: "1 \<le> n" "n \<le> length (takeWhile p s)"
      and a: "accepts as False (drop n s)"
    unfolding accepts_ClsPlus_length by auto
  have "n \<le> length s"
    using n(2) length_takeWhile_le [of p s] by simp
  then have "take n s \<noteq> []"
    using n(1) by auto
  moreover have "list_all p (take n s)"
    by (rule take_all_p [OF n(2)])
  moreover have "s = take n s @ drop n s"
    by simp
  ultimately show "\<exists>u v. s = u @ v \<and> u \<noteq> [] \<and> list_all p u \<and> accepts as False v"
    using a by blast
next
  assume "\<exists>u v. s = u @ v \<and> u \<noteq> [] \<and> list_all p u \<and> accepts as False v"
  then obtain u v where s: "s = u @ v" and u: "u \<noteq> []" "list_all p u"
      and a: "accepts as False v"
    by auto
  have "takeWhile p s = u @ takeWhile p v"
    using u(2) s by (simp add: list_all_iff)
  then have "length u \<le> length (takeWhile p s)"
    by simp
  moreover have "1 \<le> length u"
    using u(1) by (cases u) auto
  moreover have "drop (length u) s = v"
    using s by simp
  ultimately show "accepts (ClsPlus p # as) b s"
    using a unfolding accepts_ClsPlus_length by auto
qed

lemma regex_exec_single:
  "regex_exec [alt] b s = (case seq_ends alt b s of [] \<Rightarrow> None | n # _ \<Rightarrow> Some n)"
  by (simp add: regex_exec_def)

lemma regex_search_anchored_False: "regex_search [Bol # as] False s = False"
  by (induction s) (simp_all add: regex_exec_single)

lemma regex_test_anchored: "regex_test [Bol # as] s = accepts (Bol # as) True s"
  by (cases s)
    (auto simp: regex_test_def regex_exec_single regex_search_anchored_False accepts_iff
      simp del: seq_ends.simps split: list.splits)

lemma accepts_ext:
  "accepts [ClsPlus not_slash, Eol] False x = (x \<noteq> [] \<and> list_all not_slash x)"
  by (auto simp: accepts_ClsPlus accepts_Eol accepts_Nil)

lemma accepts_dot_ext:
  "accepts [Chr CHR ''.'', ClsPlus not_slash, Eol] False v =
     (\<exists>ext. v = CHR ''.'' # ext \<and> ext \<noteq> [] \<and> list_all not_slash ext)"
  by (simp only: accepts_Chr accepts_ext)

lemma accepts_file:
  "accepts [ClsPlus not_slash, Chr CHR ''.'', ClsPlus not_slash, Eol] False v =
     (\<exists>name ext. v = name @ CHR ''.'' # ext \<and> name \<noteq> [] \<and> list_all not_slash name \<and>
        ext \<noteq> [] \<and> list_all not_slash ext)"
  unfolding accepts_ClsPlus [of not_slash "[Chr CHR ''.'', ClsPlus not_slash, Eol]"] accepts_dot_ext
  by blast

lemma accepts_slash_file:
  "accepts [Chr CHR ''/'', ClsPlus not_slash, Chr CHR ''.'', ClsPlus not_slash, Eol] False v =
     (\<exists>name ext. v = CHR ''/'' # name @ CHR ''.'' # ext \<and> name \<noteq> [] \<and> list_all not_slash name \<and>
        ext \<noteq> [] \<and> list_all not_slash ext)"
  unfolding accepts_Chr [of "CHR ''/''"] accepts_file
  by blast

lemma accepts_owner_file:
  "accepts [ClsPlus not_slash, Chr CHR ''/'', ClsPlus not_slash, Chr CHR ''.'', ClsPlus not_slash, Eol]
      False v =
     (\<exists>owner name ext. v = owner @ CHR ''/'' # name @ CHR ''.'' # ext \<and>
        owner \<noteq> [] \<and> list_all not_slash owner \<and> name \<noteq> [] \<and> list_all not_slash name \<and>
        ext \<noteq> [] \<and> list_all not_slash ext)"
  unfolding accepts_ClsPlus [of not_slash "[Chr CHR ''/'', ClsPlus not_slash, Chr CHR ''.'', ClsPlus not_slash, Eol]"]
    accepts_slash_file
  by auto

lemma accepts_source_prefix:
  "accepts (Bol # Chr CHR ''s'' # Chr CHR ''o'' # Chr CHR ''u'' # Chr CHR ''r'' # Chr CHR ''c'' #
      Chr CHR ''e'' # Chr CHR ''/'' # as) True k =
     (\<exists>v. k = ''source/'' @ v \<and> accepts as False v)"
  by (auto simp: accepts_Bol accepts_Chr)

lemma sourceKey_form: "regex_test sourceKeyPattern k = well_formed_key k"
proof -
  have "regex_test sourceKeyPattern k =
     (\<exists>v. k = ''source/'' @ v \<and>
       (\<exists>owner name ext. v = owner @ CHR ''/'' # name @ CHR ''.'' # ext \<and>
        owner \<noteq> [] \<and> list_all not_slash owner \<and> name \<noteq> [] \<and> list_all not_slash name \<and>
        ext \<noteq> [] \<and> list_all not_slash ext))"
    unfolding sourceKeyPattern_def regex_test_anchored accepts_source_prefix accepts_owner_file ..
  also have "\<dots> = well_formed_key k"
  proof
    assume "\<exists>v. k = ''source/'' @ v \<and>
       (\<exists>owner name ext. v = owner @ CHR ''/'' # name @ CHR ''.'' # ext \<and>
        owner \<noteq> [] \<and> list_all not_slash owner \<and> name \<noteq> [] \<and> list_all not_slash name \<and>
        ext \<noteq> [] \<and> list_all not_slash ext)"
    then obtain owner name ext where
      "k = ''source/'' @ owner @ ''/'' @ name @ ''.'' @ ext"
      "owner \<noteq> []" "name \<noteq> []" "ext \<noteq> []"
      "list_all not_slash owner" "list_all not_slash name" "list_all not_slash ext"
      by auto
    then show "well_formed_key k"
      unfolding well_formed_key_def list_all_iff not_slash_def by blast
  next
    assume "well_formed_key k"
    then obtain owner name ext where
      k: "k = ''source/'' @ owner @ ''/'' @ name @ ''.'' @ ext"
      and ne: "owner \<noteq> []" "name \<noteq> []" "ext \<noteq> []"
      and ns: "CHR ''/'' \<notin> set owner" "CHR ''/'' \<notin> set name" "CHR ''/'' \<notin> set ext"
      unfolding well_formed_key_def by blast
    have "list_all not_slash owner" "list_all not_slash name" "list_all not_slash ext"
      using ns by (auto simp: list_all_iff not_slash_def)
    moreover have "owner @ ''/'' @ name @ ''.'' @ ext = owner @ CHR ''/'' # name @ CHR ''.'' # ext"
      by simp
    ultimately show "\<exists>v. k = ''source/'' @ v \<and>
       (\<exists>owner name ext. v = owner @ CHR ''/'' # name @ CHR ''.'' # ext \<and>
        owner \<noteq> [] \<and> list_all not_slash owner \<and> name \<noteq> [] \<and> list_all not_slash name \<and>
        ext \<noteq> [] \<and> list_all not_slash ext)"
      using k ne by blast
  qed
  finally show ?thesis .
qed

lemma exec_plus:
  "regex_exec [[Chr c]] b s =
     (case s of [] \<Rightarrow> None | x # _ \<Rightarrow> if x = c then Some 1 else None)"
  by (cases s) (simp_all add: regex_exec_def)

lemma replace_plus:
  "replace_from [[Chr CHR ''+'']] '' '' b s =
     map (\<lambda>c. if c = CHR ''+'' then CHR '' '' else c) s"
  by (induction s arbitrary: b) (simp_all add: exec_plus)

lemma plus_to_space_map:
  "plus_to_space k = map (\<lambda>c. if c = CHR ''+'' then CHR '' '' else c) k"
  by (simp add: plus_to_space_def replace_g_def replace_plus)

lemma try_block_not_invalid: "result (try_block w b k fs) \<noteq> Inl (InvalidSourceKey k')"
  by (rule try_block_cases) simp_all

lemma split_on_no_sep: "d \<notin> set a \<Longrightarrow> split_on d a = [a]"
  by (induction a) auto

lemma split_on_segment:
  "d \<notin> set a \<Longrightarrow> split_on d (a @ d # rest) = a # split_on d rest"
  by (induction a) auto

lemma well_formed_stated: "well_formed_key k \<Longrightarrow> stated_key_form k"
proof -
  assume "well_formed_key k"
  then obtain owner name ext where
    k: "k = ''source/'' @ owner @ ''/'' @ name @ ''.'' @ ext"
    and ne: "owner \<noteq> []" "name \<noteq> []" "ext \<noteq> []"
    and ns: "CHR ''/'' \<notin> set owner" "CHR ''/'' \<notin> set name" "CHR ''/'' \<notin> set ext"
    unfolding well_formed_key_def by blast
  have fl: "CHR ''/'' \<notin> set (name @ ''.'' @ ext)"
    using ns by simp
  have "k = ''source'' @ CHR ''/'' # owner @ CHR ''/'' # (name @ ''.'' @ ext)"
    using k by simp
  moreover have "split_on CHR ''/'' (''source'' @ CHR ''/'' # owner @ CHR ''/'' # (name @ ''.'' @ ext)) =
      ''source'' # split_on CHR ''/'' (owner @ CHR ''/'' # (name @ ''.'' @ ext))"
    by (rule split_on_segment) simp
  moreover have "split_on CHR ''/'' (owner @ CHR ''/'' # (name @ ''.'' @ ext)) =
      owner # split_on CHR ''/'' (name @ ''.'' @ ext)"
    by (rule split_on_segment [OF ns(1)])
  moreover have "split_on CHR ''/'' (name @ ''.'' @ ext) = [name @ ''.'' @ ext]"
    by (rule split_on_no_sep [OF fl])
  ultimately have "split_on CHR ''/'' k = [''source'', owner, name @ ''.'' @ ext]"
    by (simp only:)
  then show ?thesis
    using ne by (simp add: stated_key_form_def)
qed

text \<open>
  C7 (as stated): a decoded key is accepted exactly when, after the prefix \<open>source/\<close>,
  it has two non-empty segments without a slash, the file name containing a dot. The
  keys \<open>source/u/video.\<close> and \<open>source/u/.mp4\<close> are of this kind, and the validation
  rejects them: the pattern asks for a character before the dot and one after it.
\<close>

theorem C7_stated_form_too_wide:
  "stated_key_form ''source/u/video.'' \<and> \<not> regex_test sourceKeyPattern ''source/u/video.'' \<and>
   stated_key_form ''source/u/.mp4'' \<and> \<not> regex_test sourceKeyPattern ''source/u/.mp4'' \<and>
   result (handler good_world [\<lparr>bucket_name = ''media'', object_key = ''source/u/video.''\<rparr>] empty_fs) =
     Inl (InvalidSourceKey ''source/u/video.'') \<and>
   stated_key_form ''source/abc123/video.mp4'' \<and>
   \<not> stated_key_form ''source/abc123/sub/video.mp4'' \<and>
   \<not> stated_key_form ''source/video.mp4''"
  by code_simp

text \<open>
  C7 (amended): the key the event carries is decoded by turning every \<open>+\<close> into a space
  and then by \<open>decodeURIComponent\<close>; the decoded key is accepted by the validation (the
  handler goes on to its \<open>try\<close> statement) exactly when it has the form
  \<open>source/<owner>/<name>.<ext>\<close>: the prefix \<open>source/\<close>, an owner segment, a slash,
  and a file name that is a name, a dot and an extension, all three non-empty and without
  a slash; otherwise, and only then, the handler ends with the validation error for this
  key. Every accepted key has two non-empty segments without a slash after the prefix and
  a dot in its file name. The key \<open>source/abc123/video.mp4\<close> is accepted,
  \<open>source/abc123/sub/video.mp4\<close> and \<open>source/video.mp4\<close> are rejected.
\<close>

theorem C7_key_validation:
  assumes "GCP_SERVICE_KEY w = Some sk" and "sk \<noteq> []"
    and "decode_key w (object_key r) = Some k"
  shows "decode_key w (object_key r) =
           decodeURIComponent w (map (\<lambda>c. if c = CHR ''+'' then CHR '' '' else c) (object_key r)) \<and>
         regex_test sourceKeyPattern k = well_formed_key k \<and>
         reaches_try w (r # rs) = well_formed_key k \<and>
         (result (handler w (r # rs) fs) = Inl (InvalidSourceKey k)) = (\<not> well_formed_key k) \<and>
         regex_test sourceKeyPattern ''source/abc123/video.mp4'' \<and>
         \<not> regex_test sourceKeyPattern ''source/abc123/sub/video.mp4'' \<and>
         \<not> regex_test sourceKeyPattern ''source/video.mp4'' \<and>
         (regex_test sourceKeyPattern k \<longrightarrow> stated_key_form k)"
proof -
  have d: "decode_key w (object_key r) =
      decodeURIComponent w (map (\<lambda>c. if c = CHR ''+'' then CHR '' '' else c) (object_key r))"
    by (simp add: decode_key_def plus_to_space_map)
  have t: "reaches_try w (r # rs) = well_formed_key k"
    using assms by (simp add: reaches_try_def sourceKey_form)
  have h: "(result (handler w (r # rs) fs) = Inl (InvalidSourceKey k)) = (\<not> well_formed_key k)"
  proof (cases "regex_test sourceKeyPattern k")
    case True
    with handler_valid [OF assms True, of rs fs] try_block_not_invalid show ?thesis
      by (simp add: sourceKey_form)
  next
    case False
    with handler_invalid [OF assms False, of rs fs] show ?thesis
      by (simp add: sourceKey_form)
  qed
  have e1: "regex_test sourceKeyPattern ''source/abc123/video.mp4''"
    by code_simp
  have e2: "\<not> regex_test sourceKeyPattern ''source/abc123/sub/video.mp4''"
    by code_simp
  have e3: "\<not> regex_test sourceKeyPattern ''source/video.mp4''"
    by code_simp
  from d t h e1 e2 e3 show ?thesis
    by (simp add: sourceKey_form well_formed_stated)
qed

text \<open>Runs for C7: a rejected key and an accepted one.\<close>

theorem C7_key_validation_witness:
  "GCP_SERVICE_KEY good_world = Some ''a2V5'' \<and>
   decode_key good_world ''source/video.mp4'' = Some ''source/video.mp4'' \<and>
   \<not> well_formed_key ''source/video.mp4'' \<and>
   \<not> reaches_try good_world malformed_event \<and>
   result (handler good_world malformed_event empty_fs) = Inl (InvalidSourceKey ''source/video.mp4'') \<and>
   decode_key good_world ''source/u1/My+Video+(1).mp4'' = Some ''source/u1/My Video (1).mp4'' \<and>
   well_formed_key ''source/u1/My Video (1).mp4'' \<and>
   reaches_try good_world good_event \<and>
   result (handler good_world good_event empty_fs) \<noteq> Inl (InvalidSourceKey ''source/u1/My Video (1).mp4'')"
proof -
  have g: "GCP_SERVICE_KEY good_world = Some ''a2V5''"
    by (rule good_world_fields)
  have ne: "''a2V5'' \<noteq> []"
    by simp
  have d1: "decode_key good_world
      (object_key \<lparr>bucket_name = ''media'', object_key = ''source/video.mp4''\<rparr>) =
      Some ''source/video.mp4''"
    by code_simp
  have d2: "decode_key good_world
      (object_key \<lparr>bucket_name = ''media'', object_key = ''source/u1/My+Video+(1).mp4''\<rparr>) =
      Some ''source/u1/My Video (1).mp4''"
    by code_simp
  have t1: "\<not> regex_test sourceKeyPattern ''source/video.mp4''"
    by code_simp
  have t2: "regex_test sourceKeyPattern ''source/u1/My Video (1).mp4''"
    by code_simp
  note c1 = C7_key_validation [OF g ne d1, of "[]" empty_fs, folded malformed_event_def]
  note c2 = C7_key_validation [OF g ne d2, of "[]" empty_fs, folded good_event_def]
  from c1 t1 have w1: "\<not> well_formed_key ''source/video.mp4''"
    by blast
  from c2 t2 have w2: "well_formed_key ''source/u1/My Video (1).mp4''"
    by blast
  from c1 w1 have a1: "\<not> reaches_try good_world malformed_event"
    "result (handler good_world malformed_event empty_fs) = Inl (InvalidSourceKey ''source/video.mp4'')"
    by blast+
  from c2 w2 have a2: "reaches_try good_world good_event"
    "result (handler good_world good_event empty_fs) \<noteq> Inl (InvalidSourceKey ''source/u1/My Video (1).mp4'')"
    by blast+
  from d1 d2 have d1': "decode_key good_world ''source/video.mp4'' = Some ''source/video.mp4''"
    and d2': "decode_key good_world ''source/u1/My+Video+(1).mp4'' = Some ''source/u1/My Video (1).mp4''"
    by simp_all
  from g d1' w1 a1 d2' w2 a2 show ?thesis
    by (intro conjI)
qed

section \<open>The encode ladder\<close>

lemma dir_put_keys:
  "map fst (dir_put k v es) =
     (if k \<in> set (map fst es) then map fst es else map fst es @ [k])"
proof (induction es)
  case Nil
  then show ?case by simp
next
  case (Cons e es)
  obtain k' v' where e: "e = (k', v')"
    by (cases e)
  show ?case
  proof (cases "k' = k")
    case True
    with e show ?thesis by simp
  next
    case False
    with e Cons show ?thesis by auto
  qed
qed

lemma dir_put_names: "set (map fst (dir_put k v es)) = insert k (set (map fst es))"
  unfolding dir_put_keys by auto

lemma write_output_file_names:
  "set (output_names fs) \<subseteq> set (output_names (write_output_file p b fs))"
proof (cases "output_dir fs")
  case None
  then show ?thesis
    by (simp add: output_names_def write_output_file_def)
next
  case (Some dir)
  then show ?thesis
    using dir_put_names [of "path_basename p []" b dir]
    by (auto simp: output_names_def write_output_file_def readdirSync_set)
qed

lemma write_segments_names:
  "set (output_names fs) \<subseteq> set (output_names (write_segments pat i bs fs))"
proof (induction bs arbitrary: i fs)
  case Nil
  then show ?case by simp
next
  case (Cons b bs)
  have "set (output_names fs) \<subseteq> set (output_names (write_output_file (subst_03d (pad3 i) pat) b fs))"
    by (rule write_output_file_names)
  also have "\<dots> \<subseteq> set (output_names (write_segments pat (Suc i) bs
      (write_output_file (subst_03d (pad3 i) pat) b fs)))"
    by (rule Cons.IH)
  finally show ?case by simp
qed

lemma write_outputs_names:
  "set (output_names fs) \<subseteq> set (output_names (write_outputs c r fs))"
proof (cases "playlist_body r")
  case None
  then show ?thesis
    by (simp add: write_outputs_def Let_def write_segments_names)
next
  case (Some b)
  have "set (output_names fs) \<subseteq>
      set (output_names (write_segments (cmd_segment_filename c) 0 (segment_bodies r) fs))"
    by (rule write_segments_names)
  also have "\<dots> \<subseteq> set (output_names (write_output_file (cmd_playlist c) b
      (write_segments (cmd_segment_filename c) 0 (segment_bodies r) fs)))"
    by (rule write_output_file_names)
  finally show ?thesis
    using Some by (simp add: write_outputs_def Let_def)
qed

lemma ladder_names:
  "get_prop (resolutions ! 0) ''name'' = Str ''1080p''"
  "get_prop (resolutions ! 1) ''name'' = Str ''720p''"
  "get_prop (resolutions ! 2) ''name'' = Str ''480p''"
  by code_simp+

lemma ladder_playlists:
  "cmd_playlist (command_of (resolutions ! 0)) = ''/tmp/output/1080p.m3u8''"
  "cmd_playlist (command_of (resolutions ! 1)) = ''/tmp/output/720p.m3u8''"
  "cmd_playlist (command_of (resolutions ! 2)) = ''/tmp/output/480p.m3u8''"
  by code_simp+

lemma entry_name: "get_prop (playlist_entry res) ''name'' = get_prop res ''name''"
  by (simp add: playlist_entry_def get_prop_def)

lemma second_fails:
  assumes "exit_ok (ffmpeg w (command_of (resolutions ! 0)))"
    and "\<not> exit_ok (ffmpeg w (command_of (resolutions ! 1)))"
  shows "encode_loop w resolutions fs =
     \<lparr>ladder_error = Some (CommandFailed (command_of (resolutions ! 1))),
      playlists = [playlist_entry (resolutions ! 0), playlist_entry (resolutions ! 1)],
      ladder_fs =
        write_outputs (command_of (resolutions ! 1)) (ffmpeg w (command_of (resolutions ! 1)))
          (write_outputs (command_of (resolutions ! 0)) (ffmpeg w (command_of (resolutions ! 0))) fs),
      ladder_trace = [Exec (command_of (resolutions ! 0)), Exec (command_of (resolutions ! 1))]\<rparr>"
  using assms by (simp add: resolutions_def Let_def)

text \<open>
  C8: the ladder is sequential and fails fast. In every run in which the encoder exits
  with success for the first resolution and with an error for the second, the loop ends
  with the error of that second command (the one of the resolution \<open>720p\<close>, whose
  playlist is \<open>/tmp/output/720p.m3u8\<close>); the encoder has been run for the first two
  resolutions only, never for the third; \<open>playlists\<close> holds entries for \<open>1080p\<close> and
  \<open>720p\<close> and none for the third; the file system is the one the two runs left, so
  the files of the first run are still in the output directory; and the \<open>try\<close> block
  fails with this error once the source was fetched.
\<close>

theorem C8_fail_fast:
  assumes ok1: "exit_ok (ffmpeg w (command_of (resolutions ! 0)))"
    and fail2: "\<not> exit_ok (ffmpeg w (command_of (resolutions ! 1)))"
  shows "ladder_error (encode_loop w resolutions fs) =
           Some (CommandFailed (command_of (resolutions ! 1))) \<and>
         get_prop (resolutions ! 1) ''name'' = Str ''720p'' \<and>
         cmd_playlist (command_of (resolutions ! 1)) = ''/tmp/output/720p.m3u8'' \<and>
         ladder_trace (encode_loop w resolutions fs) =
           [Exec (command_of (resolutions ! 0)), Exec (command_of (resolutions ! 1))] \<and>
         Exec (command_of (resolutions ! 2)) \<notin> set (ladder_trace (encode_loop w resolutions fs)) \<and>
         map (\<lambda>p. get_prop p ''name'') (playlists (encode_loop w resolutions fs)) =
           [Str ''1080p'', Str ''720p''] \<and>
         ladder_fs (encode_loop w resolutions fs) =
           write_outputs (command_of (resolutions ! 1)) (ffmpeg w (command_of (resolutions ! 1)))
             (write_outputs (command_of (resolutions ! 0)) (ffmpeg w (command_of (resolutions ! 0))) fs) \<and>
         set (output_names (write_outputs (command_of (resolutions ! 0))
               (ffmpeg w (command_of (resolutions ! 0))) fs)) \<subseteq>
           set (output_names (ladder_fs (encode_loop w resolutions fs))) \<and>
         (s3_getObject w b k = Some body \<longrightarrow>
            result (try_block w b k fs) = Inl (CommandFailed (command_of (resolutions ! 1))) \<and>
            encoder_runs (trace (try_block w b k fs)) =
              [command_of (resolutions ! 0), command_of (resolutions ! 1)])"
proof -
  note l = second_fails [OF ok1 fail2]
  have c3: "command_of (resolutions ! 2) \<noteq> command_of (resolutions ! 0)"
    "command_of (resolutions ! 2) \<noteq> command_of (resolutions ! 1)"
    using ladder_playlists by auto
  have names: "map (\<lambda>p. get_prop p ''name'') (playlists (encode_loop w resolutions fs)) =
      [Str ''1080p'', Str ''720p'']"
    by (simp add: l entry_name ladder_names ladder_names [unfolded One_nat_def])
  have sub: "set (output_names (write_outputs (command_of (resolutions ! 0))
               (ffmpeg w (command_of (resolutions ! 0))) fs)) \<subseteq>
           set (output_names (ladder_fs (encode_loop w resolutions fs)))"
    by (simp add: l write_outputs_names)
  have tb: "result (try_block w b k fs) = Inl (CommandFailed (command_of (resolutions ! 1))) \<and>
      encoder_runs (trace (try_block w b k fs)) =
        [command_of (resolutions ! 0), command_of (resolutions ! 1)]"
    if get: "s3_getObject w b k = Some body"
  proof -
    have "ladder_error (encode_loop w resolutions (fetched_fs body fs)) =
        Some (CommandFailed (command_of (resolutions ! 1)))"
      by (simp add: l)
    from try_block_encode_failed [OF get this] show ?thesis
      by (simp add: l)
  qed
  from names sub tb c3 show ?thesis
    by (simp add: l ladder_names ladder_playlists ladder_names [unfolded One_nat_def]
        ladder_playlists [unfolded One_nat_def])
qed

lemma second_world_fields:
  "GCP_SERVICE_KEY second_encode_fails_world = Some ''a2V5''"
  "from_base64 second_encode_fails_world x = ''key''"
  "s3_getObject second_encode_fails_world b k = Some ''video''"
  "exit_ok (ffmpeg second_encode_fails_world c) = (cmd_playlist c \<noteq> ''/tmp/output/720p.m3u8'')"
  by (simp_all add: second_encode_fails_world_def good_world_def)

lemma second_key:
  "decode_key second_encode_fails_world ''source/u1/My+Video+(1).mp4'' =
     Some ''source/u1/My Video (1).mp4''"
  by code_simp

lemma second_output_names:
  "output_names (ladder_fs (encode_loop second_encode_fails_world resolutions
      (fetched_fs ''video'' (empty_fs\<lparr>service_key_file := Some ''key''\<rparr>)))) =
     [''1080p.m3u8'', ''1080p_000.ts'', ''1080p_001.ts'', ''720p_000.ts'']"
  by code_simp

text \<open>
  A run for C8, in the world whose encoder fails on the second resolution: the output
  directory holds the files of the first run and the segment the second one wrote.
\<close>

theorem C8_fail_fast_witness:
  "exit_ok (ffmpeg second_encode_fails_world (command_of (resolutions ! 0))) \<and>
   \<not> exit_ok (ffmpeg second_encode_fails_world (command_of (resolutions ! 1))) \<and>
   result (handler second_encode_fails_world good_event empty_fs) =
     Inl (CommandFailed (command_of (resolutions ! 1))) \<and>
   encoder_runs (trace (handler second_encode_fails_world good_event empty_fs)) =
     [command_of (resolutions ! 0), command_of (resolutions ! 1)] \<and>
   map (\<lambda>p. get_prop p ''name'')
     (playlists (encode_loop second_encode_fails_world resolutions
        (fetched_fs ''video'' (empty_fs\<lparr>service_key_file := Some ''key''\<rparr>)))) =
     [Str ''1080p'', Str ''720p''] \<and>
   output_names (ladder_fs (encode_loop second_encode_fails_world resolutions
      (fetched_fs ''video'' (empty_fs\<lparr>service_key_file := Some ''key''\<rparr>)))) =
     [''1080p.m3u8'', ''1080p_000.ts'', ''1080p_001.ts'', ''720p_000.ts'']"
proof -
  let ?w = second_encode_fails_world
  let ?k = "''source/u1/My Video (1).mp4''"
  let ?fs = "empty_fs\<lparr>service_key_file := Some ''key''\<rparr>"
  have ok1: "exit_ok (ffmpeg ?w (command_of (resolutions ! 0)))"
    by (simp add: second_world_fields ladder_playlists)
  have fail2: "\<not> exit_ok (ffmpeg ?w (command_of (resolutions ! 1)))"
    by (simp add: second_world_fields ladder_playlists [unfolded One_nat_def])
  note c = C8_fail_fast [OF ok1 fail2]
  have h: "handler ?w good_event empty_fs =
       \<lparr>result = result (try_block ?w ''media'' ?k ?fs),
        fs_after = cleanup (fs_after (try_block ?w ''media'' ?k ?fs)),
        trace = Authenticate # ValidateKey ?k # trace (try_block ?w ''media'' ?k ?fs) @ [Cleanup]\<rparr>"
    unfolding good_event_def
    using handler_valid [of ?w "''a2V5''"
        "\<lparr>bucket_name = ''media'', object_key = ''source/u1/My+Video+(1).mp4''\<rparr>" ?k "[]" empty_fs]
    by (simp add: second_world_fields second_key good_key)
  have get: "s3_getObject ?w ''media'' ?k = Some ''video''"
    by (rule second_world_fields)
  from c [of ?fs "''media''" ?k "''video''"] get
  have tb: "result (try_block ?w ''media'' ?k ?fs) = Inl (CommandFailed (command_of (resolutions ! 1)))"
    "encoder_runs (trace (try_block ?w ''media'' ?k ?fs)) =
       [command_of (resolutions ! 0), command_of (resolutions ! 1)]"
    by blast+
  have r: "result (handler ?w good_event empty_fs) = Inl (CommandFailed (command_of (resolutions ! 1)))"
    by (simp add: h tb)
  have e: "encoder_runs (trace (handler ?w good_event empty_fs)) =
     [command_of (resolutions ! 0), command_of (resolutions ! 1)]"
    by (simp add: h tb encoder_runs_append)
  from c [of "fetched_fs ''video'' ?fs" "''media''" ?k "''video''"]
  have n: "map (\<lambda>p. get_prop p ''name'')
     (playlists (encode_loop ?w resolutions (fetched_fs ''video'' ?fs))) = [Str ''1080p'', Str ''720p'']"
    by blast
  from ok1 fail2 r e n second_output_names show ?thesis
    by (intro conjI)
qed

section \<open>The master playlist\<close>

lemma parse_bitrates:
  "parseInt (Str ''5000k'') = Num 5000"
  "parseInt (Str ''3000k'') = Num 3000"
  "parseInt (Str ''1500k'') = Num 1500"
  by (simp_all add: parseInt_def Let_def is_space_def is_digit_def char_between_def digit_value_def)

lemma bandwidths:
  "to_string (js_times (parseInt (Str ''5000k'')) (Num 1000)) = ''5000000''"
  "to_string (js_times (parseInt (Str ''3000k'')) (Num 1000)) = ''3000000''"
  "to_string (js_times (parseInt (Str ''1500k'')) (Num 1000)) = ''1500000''"
  by (simp_all add: parse_bitrates show_int_def)

lemma entries:
  "map playlist_entry resolutions =
     [[(''name'', Str ''1080p''), (''bitrate'', Str ''5000k''), (''playlist'', Str ''/tmp/output/1080p.m3u8'')],
      [(''name'', Str ''720p''), (''bitrate'', Str ''3000k''), (''playlist'', Str ''/tmp/output/720p.m3u8'')],
      [(''name'', Str ''480p''), (''bitrate'', Str ''1500k''), (''playlist'', Str ''/tmp/output/480p.m3u8'')]]"
  by code_simp

lemma basenames:
  "path_basename ''/tmp/output/1080p.m3u8'' [] = ''1080p.m3u8''"
  "path_basename ''/tmp/output/720p.m3u8'' [] = ''720p.m3u8''"
  "path_basename ''/tmp/output/480p.m3u8'' [] = ''480p.m3u8''"
  by code_simp+

lemma stream_infs:
  "map stream_inf (map playlist_entry resolutions) =
     [''#EXT-X-STREAM-INF:BANDWIDTH=5000000,RESOLUTION=undefinedxundefined'',
      ''#EXT-X-STREAM-INF:BANDWIDTH=3000000,RESOLUTION=undefinedxundefined'',
      ''#EXT-X-STREAM-INF:BANDWIDTH=1500000,RESOLUTION=undefinedxundefined'']"
  unfolding entries by (simp add: stream_inf_def get_prop_def bandwidths)

lemma master_text:
  "master_file (map playlist_entry resolutions) =
     ''#EXTM3U'' @ newline @ ''#EXT-X-VERSION:3'' @ newline @
     ''#EXT-X-STREAM-INF:BANDWIDTH=5000000,RESOLUTION=undefinedxundefined'' @ newline @
     ''1080p.m3u8'' @ newline @
     ''#EXT-X-STREAM-INF:BANDWIDTH=3000000,RESOLUTION=undefinedxundefined'' @ newline @
     ''720p.m3u8'' @ newline @
     ''#EXT-X-STREAM-INF:BANDWIDTH=1500000,RESOLUTION=undefinedxundefined'' @ newline @
     ''480p.m3u8''"
  unfolding entries
  by (simp add: master_file_def masterPlaylist_def master_entry_def stream_inf_def get_prop_def
      bandwidths basenames)

lemma master_lines:
  "split_on (CHR 0x0A) (master_file (map playlist_entry resolutions)) =
     [''#EXTM3U'', ''#EXT-X-VERSION:3'',
      ''#EXT-X-STREAM-INF:BANDWIDTH=5000000,RESOLUTION=undefinedxundefined'', ''1080p.m3u8'',
      ''#EXT-X-STREAM-INF:BANDWIDTH=3000000,RESOLUTION=undefinedxundefined'', ''720p.m3u8'',
      ''#EXT-X-STREAM-INF:BANDWIDTH=1500000,RESOLUTION=undefinedxundefined'', ''480p.m3u8'']"
  unfolding master_text by (simp add: newline_def)

lemma masters_execs: "\<forall>a \<in> set es. \<exists>c. a = Exec c \<Longrightarrow> masters_written es = []"
  by (induction es) auto

lemma masters_uploads: "\<forall>a \<in> set us. \<exists>k. a = Upload b k \<Longrightarrow> masters_written us = []"
  by (induction us) auto

lemma try_block_masters:
  "set (masters_written (trace (try_block w b k fs))) \<subseteq>
     {master_file (map playlist_entry resolutions)}"
  by (rule try_block_cases)
    (simp_all add: resolutions_def masters_written_append masters_execs masters_uploads)

lemma handler_masters:
  "set (masters_written (trace (handler w ev fs))) \<subseteq>
     {master_file (map playlist_entry resolutions)}"
proof (cases "reaches_try w ev")
  case True
  show ?thesis
  proof (rule handler_reaches [OF True, of fs])
    fix sk r key and rs :: "s3_record list"
    assume h: "handler w ev fs =
       \<lparr>result = result (try_block w (bucket_name r) key (fs\<lparr>service_key_file := Some (from_base64 w sk)\<rparr>)),
        fs_after = cleanup (fs_after (try_block w (bucket_name r) key (fs\<lparr>service_key_file := Some (from_base64 w sk)\<rparr>))),
        trace = Authenticate # ValidateKey key #
          trace (try_block w (bucket_name r) key (fs\<lparr>service_key_file := Some (from_base64 w sk)\<rparr>)) @ [Cleanup]\<rparr>"
    show ?thesis
      unfolding h
      using try_block_masters [of w "bucket_name r" key "fs\<lparr>service_key_file := Some (from_base64 w sk)\<rparr>"]
      by (simp add: masters_written_append)
  qed
next
  case False
  from handler_stops [OF False, of fs] obtain e t tr where
    "handler w ev fs = \<lparr>result = Inl e, fs_after = fs\<lparr>service_key_file := t\<rparr>, trace = tr\<rparr>"
    "tr = [Authenticate] \<or> (\<exists>key. tr = [Authenticate, ValidateKey key] \<and> e = InvalidSourceKey key)"
    by blast
  then show ?thesis by auto
qed

text \<open>
  C9: when the three encoder runs succeed, the master playlist is eight lines: the header
  lines \<open>#EXTM3U\<close> and \<open>#EXT-X-VERSION:3\<close>, then exactly three stream-information
  lines, with \<open>BANDWIDTH\<close> 5000000, 3000000 and 1500000 in the order of the ladder, each
  followed by the name of the playlist of its resolution, \<open>1080p.m3u8\<close>, \<open>720p.m3u8\<close>
  and \<open>480p.m3u8\<close>, without a directory. A run of the handler writes no other master
  playlist than this one.
\<close>

theorem C9_master_playlist:
  assumes "ladder_error (encode_loop w resolutions fs) = None"
  shows "(let ls = split_on (CHR 0x0A) (master_file (playlists (encode_loop w resolutions fs)))
          in length ls = 8 \<and>
             take 2 ls = [''#EXTM3U'', ''#EXT-X-VERSION:3''] \<and>
             filter (prefix ''#EXT-X-STREAM-INF:'') ls = [ls ! 2, ls ! 4, ls ! 6] \<and>
             prefix ''#EXT-X-STREAM-INF:BANDWIDTH=5000000,'' (ls ! 2) \<and> ls ! 3 = ''1080p.m3u8'' \<and>
             prefix ''#EXT-X-STREAM-INF:BANDWIDTH=3000000,'' (ls ! 4) \<and> ls ! 5 = ''720p.m3u8'' \<and>
             prefix ''#EXT-X-STREAM-INF:BANDWIDTH=1500000,'' (ls ! 6) \<and> ls ! 7 = ''480p.m3u8'') \<and>
         set (masters_written (trace (handler w ev fs'))) \<subseteq>
           {master_file (playlists (encode_loop w resolutions fs))}"
proof -
  have pl: "playlists (encode_loop w resolutions fs) = map playlist_entry resolutions"
    using assms by (auto dest: ladder_success)
  show ?thesis
    unfolding pl master_lines Let_def
    using handler_masters [of w ev fs'] by simp
qed

text \<open>
  A run for C9: in the world where every collaborator succeeds the handler writes one
  master playlist, the one of the theorem.
\<close>

theorem C9_master_playlist_witness:
  "ladder_error (encode_loop good_world resolutions empty_fs) = None \<and>
   masters_written (trace (handler good_world good_event empty_fs)) =
     [master_file (playlists (encode_loop good_world resolutions empty_fs))] \<and>
   (let ls = split_on (CHR 0x0A) (master_file (playlists (encode_loop good_world resolutions empty_fs)))
    in length ls = 8 \<and>
       take 2 ls = [''#EXTM3U'', ''#EXT-X-VERSION:3''] \<and>
       filter (prefix ''#EXT-X-STREAM-INF:'') ls = [ls ! 2, ls ! 4, ls ! 6] \<and>
       prefix ''#EXT-X-STREAM-INF:BANDWIDTH=5000000,'' (ls ! 2) \<and> ls ! 3 = ''1080p.m3u8'' \<and>
       prefix ''#EXT-X-STREAM-INF:BANDWIDTH=3000000,'' (ls ! 4) \<and> ls ! 5 = ''720p.m3u8'' \<and>
       prefix ''#EXT-X-STREAM-INF:BANDWIDTH=1500000,'' (ls ! 6) \<and> ls ! 7 = ''480p.m3u8'')"
proof -
  have l: "ladder_error (encode_loop good_world resolutions empty_fs) = None"
    by (rule encode_loop_all_ok) (rule good_world_fields)
  have pl: "playlists (encode_loop good_world resolutions empty_fs) = map playlist_entry resolutions"
    using l by (auto dest: ladder_success)
  have m: "masters_written (trace (handler good_world good_event empty_fs)) =
     [master_file (playlists (encode_loop good_world resolutions empty_fs))]"
    unfolding pl by (rule good_master_written)
  from C9_master_playlist [OF l, of good_event empty_fs]
  have c: "(let ls = split_on (CHR 0x0A) (master_file (playlists (encode_loop good_world resolutions empty_fs)))
    in length ls = 8 \<and>
       take 2 ls = [''#EXTM3U'', ''#EXT-X-VERSION:3''] \<and>
       filter (prefix ''#EXT-X-STREAM-INF:'') ls = [ls ! 2, ls ! 4, ls ! 6] \<and>
       prefix ''#EXT-X-STREAM-INF:BANDWIDTH=5000000,'' (ls ! 2) \<and> ls ! 3 = ''1080p.m3u8'' \<and>
       prefix ''#EXT-X-STREAM-INF:BANDWIDTH=3000000,'' (ls ! 4) \<and> ls ! 5 = ''720p.m3u8'' \<and>
       prefix ''#EXT-X-STREAM-INF:BANDWIDTH=1500000,'' (ls ! 6) \<and> ls ! 7 = ''480p.m3u8'')"
    by (rule conjunct1)
  from l m c show ?thesis
    by (intro conjI)
qed

text \<open>
  C1: the objects the encode loop collects carry a name, a bit rate and a playlist, and
  neither the width nor the height the ladder declares (1920 by 1080, 1280 by 720 and
  854 by 480). The stream-information lines are built from the collected objects, so
  their \<open>RESOLUTION\<close> attribute is \<open>undefinedxundefined\<close> for every resolution: this is
  the master playlist the handler writes on the event for \<open>source/u1/My+Video+(1).mp4\<close>
  when every collaborator succeeds.
\<close>

theorem C1_resolution_undefined:
  "(\<forall>res. get_prop (playlist_entry res) ''width'' = Undefined \<and>
          get_prop (playlist_entry res) ''height'' = Undefined) \<and>
   map (\<lambda>res. (get_prop res ''width'', get_prop res ''height'')) resolutions =
     [(Num 1920, Num 1080), (Num 1280, Num 720), (Num 854, Num 480)] \<and>
   map stream_inf (map playlist_entry resolutions) =
     [''#EXT-X-STREAM-INF:BANDWIDTH=5000000,RESOLUTION=undefinedxundefined'',
      ''#EXT-X-STREAM-INF:BANDWIDTH=3000000,RESOLUTION=undefinedxundefined'',
      ''#EXT-X-STREAM-INF:BANDWIDTH=1500000,RESOLUTION=undefinedxundefined''] \<and>
   map (split_on (CHR 0x0A)) (masters_written (trace (handler good_world good_event empty_fs))) =
     [[''#EXTM3U'', ''#EXT-X-VERSION:3'',
       ''#EXT-X-STREAM-INF:BANDWIDTH=5000000,RESOLUTION=undefinedxundefined'', ''1080p.m3u8'',
       ''#EXT-X-STREAM-INF:BANDWIDTH=3000000,RESOLUTION=undefinedxundefined'', ''720p.m3u8'',
       ''#EXT-X-STREAM-INF:BANDWIDTH=1500000,RESOLUTION=undefinedxundefined'', ''480p.m3u8'']]"
proof -
  have a: "\<forall>res. get_prop (playlist_entry res) ''width'' = Undefined \<and>
      get_prop (playlist_entry res) ''height'' = Undefined"
    by (simp add: playlist_entry_def get_prop_def)
  have b: "map (\<lambda>res. (get_prop res ''width'', get_prop res ''height'')) resolutions =
     [(Num 1920, Num 1080), (Num 1280, Num 720), (Num 854, Num 480)]"
    by (simp add: resolutions_def get_prop_def)
  have c: "map (split_on (CHR 0x0A)) (masters_written (trace (handler good_world good_event empty_fs))) =
     [[''#EXTM3U'', ''#EXT-X-VERSION:3'',
       ''#EXT-X-STREAM-INF:BANDWIDTH=5000000,RESOLUTION=undefinedxundefined'', ''1080p.m3u8'',
       ''#EXT-X-STREAM-INF:BANDWIDTH=3000000,RESOLUTION=undefinedxundefined'', ''720p.m3u8'',
       ''#EXT-X-STREAM-INF:BANDWIDTH=1500000,RESOLUTION=undefinedxundefined'', ''480p.m3u8'']]"
    by (simp only: good_master_written master_lines list.map)
  from a b stream_infs c show ?thesis
    by (intro conjI)
qed

end
